theory Spec2Isabelle
  imports Complex_Main "HOL-Library.Word" "HOL-Library.Log_Nat"
begin

section \<open>s3-tidy: the scan loop of \<open>main.go\<close>\<close>

text \<open>
  The program is one function, \<open>runScan\<close> (main.go, lines 60-148), called by the
  \<open>scan\<close> command. It loads the SDK configuration, computes a cutoff, pages through the
  bucket listing, classifies each object by its last-modified time, and depending on two
  flags reports, simulates or performs deletions; it ends with a summary.

  What the SDK, the clock and the standard library supply is a parameter of the model
  (record \<open>environment\<close>); what \<open>runScan\<close> does with it is translated line by line.
  Everything the function prints or logs, and every call of \<open>client.DeleteObject\<close>, is
  appended to a chronological trace of events, so that statements about what is or is not
  emitted or invoked are statements about that trace.
\<close>

subsection \<open>Data\<close>

text \<open>
  A \<open>time.Time\<close> is taken as an instant on the integer time line; \<open>Time.Before\<close> is the
  strict order of instants.
\<close>

type_synonym time = int

definition Before :: "time \<Rightarrow> time \<Rightarrow> bool" where
  "Before t u = (t < u)"

type_synonym int64 = "64 word"

subsection \<open>Binary64 arithmetic\<close>

text \<open>
  The sizes the program prints are \<open>float64\<close> values. A finite \<open>float64\<close> is kept as a pair
  \<open>(m, e)\<close> that stands for the rational number \<open>m * 2^e\<close>. Every operation computes
  the exact result and rounds it to the nearest number with a 53-bit significand, ties to
  the even significand, as IEEE 754 binary64 does. The exponent is not bounded: every value
  the program can compute lies between \<open>2^-40\<close> and \<open>2^64\<close> in magnitude or is zero, far
  inside the normal range of binary64.
\<close>

type_synonym float64 = "int \<times> int"

definition float_value :: "float64 \<Rightarrow> rat" where
  "float_value x = of_int (fst x) * 2 powi (snd x)"

text \<open>The integer nearest to \<open>a / b\<close> for \<open>b > 0\<close>, the even one of two equally near.\<close>

definition round_half_even :: "int \<Rightarrow> int \<Rightarrow> int" where
  "round_half_even a b =
     (let q = a div b; r = a mod b
      in if 2 * r < b then q
         else if b < 2 * r then q + 1
         else if even q then q else q + 1)"

text \<open>
  Rounding \<open>m * 2^e\<close> to binary64: a significand of more than 53 bits loses its low bits.
\<close>

definition round_to_53 :: "float64 \<Rightarrow> float64" where
  "round_to_53 x =
     (let k = bitlen \<bar>fst x\<bar> - 53
      in if k \<le> 0 then x else (round_half_even (fst x) (2 ^ nat k), snd x + k))"

text \<open>The conversion \<open>float64(n)\<close> of an \<open>int64\<close>.\<close>

definition float64_of_int64 :: "int64 \<Rightarrow> float64" where
  "float64_of_int64 n = round_to_53 (sint n, 0)"

text \<open>
  \<open>x / 1024\<close>: the divisor is \<open>2^10\<close>, so the quotient has the significand of \<open>x\<close> and
  needs no rounding.
\<close>

definition fdiv_1024 :: "float64 \<Rightarrow> float64" where
  "fdiv_1024 x = (fst x, snd x - 10)"

text \<open>\<open>x * y\<close>: the exact product, rounded.\<close>

definition fmul :: "float64 \<Rightarrow> float64 \<Rightarrow> float64" where
  "fmul x y = round_to_53 (fst x * fst y, snd x + snd y)"

text \<open>
  \<open>const pricePerGB = 0.023\<close> (line 25) is an untyped constant; where line 131 multiplies
  it with a \<open>float64\<close> it is the \<open>float64\<close> nearest to \<open>23/1000\<close>. That number lies between
  \<open>2^-6\<close> and \<open>2^-5\<close>, so its significand is \<open>23/1000 * 2^58\<close> rounded to an integer.
\<close>

definition pricePerGB :: float64 where
  "pricePerGB = (round_half_even (23 * 2 ^ 58) 1000, - 58)"

text \<open>Line 106, with the \<open>0.0\<close> of line 104 for an object without a size.\<close>

definition sizeMB :: "int64 option \<Rightarrow> float64" where
  "sizeMB size_ptr =
     (case size_ptr of
        None \<Rightarrow> (0, 0)
      | Some sz \<Rightarrow> fdiv_1024 (fdiv_1024 (float64_of_int64 sz)))"

text \<open>Lines 130 and 131.\<close>

definition sizeInGB :: "int64 \<Rightarrow> float64" where
  "sizeInGB bytes = fdiv_1024 (fdiv_1024 (fdiv_1024 (float64_of_int64 bytes)))"

definition estimatedSavings :: "int64 \<Rightarrow> float64" where
  "estimatedSavings bytes = fmul (sizeInGB bytes) pricePerGB"

text \<open>
  What \<open>%.df\<close> prints for a \<open>float64\<close>, as a count of units of \<open>10^-d\<close>: the exact value of
  the \<open>float64\<close> rounded to \<open>d\<close> decimals, ties to the even digit (\<open>strconv\<close> rounds the
  exact decimal expansion so).
\<close>

definition format_fixed :: "nat \<Rightarrow> float64 \<Rightarrow> int" where
  "format_fixed d x =
     (if 0 \<le> snd x then fst x * 10 ^ d * 2 ^ nat (snd x)
      else round_half_even (fst x * 10 ^ d) (2 ^ nat (- snd x)))"

subsection \<open>Objects, pages, trace\<close>

text \<open>
  \<open>types.Object\<close> of the SDK, restricted to the three fields \<open>runScan\<close> reads. All three
  are pointers in Go (\<open>*string\<close>, \<open>*time.Time\<close>, \<open>*int64\<close>): \<open>None\<close> is the nil pointer.
\<close>

record s3_object =
  Key :: "string option"
  LastModified :: "time option"
  Size :: "int64 option"

text \<open>
  One call of \<open>paginator.NextPage\<close>: an error, or a page with its \<open>Contents\<close>.
\<close>

datatype page_result = NextPageError string | NextPageOk "s3_object list"

text \<open>
  The trace. One constructor per output statement of \<open>runScan\<close>, carrying the arguments
  of the format string (a \<open>float64\<close> argument is printed as \<open>format_fixed\<close> says, with the
  number of decimals of its verb; the rendering of a date is not modelled), and one for a
  call of \<open>client.DeleteObject\<close> with its bucket, its key pointer and the error it
  returned (\<open>None\<close>: success).
\<close>

datatype event =
    FatalConfig string                        \<comment> \<open>line 66, log.Fatalf: unable to load SDK config\<close>
  | ScanBanner string time int                \<comment> \<open>line 72: bucket, cutoff, days\<close>
  | FatalListObjects string                   \<comment> \<open>line 86, log.Fatalf: failed to list objects\<close>
  | DryRunLine string time float64            \<comment> \<open>line 108: key, last-modified, sizeMB (%.2f)\<close>
  | DeleteObjectCall string "string option" "string option"
                                              \<comment> \<open>line 111: bucket, key pointer, returned error\<close>
  | DeleteWarning string string               \<comment> \<open>line 116, log.Printf: key, error\<close>
  | DeletedLine string                        \<comment> \<open>line 118: key\<close>
  | Separator                                 \<comment> \<open>line 127\<close>
  | ReportHeader                              \<comment> \<open>line 134\<close>
  | ReportStaleObjects int                    \<comment> \<open>line 135: staleCount\<close>
  | ReportReclaimable float64                 \<comment> \<open>line 136: sizeInGB (%.4f)\<close>
  | ReportSavings float64                     \<comment> \<open>line 137: estimatedSavings (%.4f)\<close>
  | ReportPricingNote                         \<comment> \<open>line 138\<close>
  | DryRunSummary int float64                 \<comment> \<open>line 143: staleCount, sizeInGB (%.2f)\<close>
  | DryRunHint                                \<comment> \<open>line 144\<close>
  | CleanupSummary int                        \<comment> \<open>line 146: deletedCount\<close>

text \<open>
  How the process ends: \<open>runScan\<close> returns to \<open>main\<close>; or \<open>log.Fatalf\<close> ends the process
  inside \<open>runScan\<close> (it prints and calls \<open>os.Exit(1)\<close>); or a nil pointer is dereferenced
  and the Go runtime panics. The exit status is the one the operating system sees.
\<close>

datatype ending = Returned | Fatal | NilPanic

fun exit_status :: "ending \<Rightarrow> int" where
  "exit_status Returned = 0"
| "exit_status Fatal = 1"
| "exit_status NilPanic = 2"

text \<open>
  The local variables of \<open>runScan\<close> (lines 78-80), the state of the storage backend the
  client talks to, and the trace so far. The two counters are Go \<open>int\<close>s that start at 0
  and go up by one per record at most; no listing is long enough to make them wrap, and
  they are taken as unbounded integers. \<open>totalSize\<close> is an \<open>int64\<close> that adds sizes
  supplied by the backend, which two records suffice to overflow, so it is a 64-bit word
  and wraps as Go's addition does.
\<close>

record 'b scan_state =
  backend :: 'b
  staleCount :: int
  totalSize :: int64
  deletedCount :: int
  events :: "event list"

text \<open>
  What \<open>runScan\<close> obtains from outside: the result of \<open>config.LoadDefaultConfig\<close>
  (\<open>Some e\<close>: it failed with error \<open>e\<close>), the clock and \<open>Time.AddDate\<close>, the results of the
  successive \<open>NextPage\<close> calls for as long as \<open>HasMorePages\<close> holds, and
  \<open>client.DeleteObject\<close>, which takes the backend from one state to the next and returns
  an error or none.
\<close>

record 'b environment =
  LoadDefaultConfig :: "string option"
  Now :: time
  AddDate :: "time \<Rightarrow> int \<Rightarrow> int \<Rightarrow> int \<Rightarrow> time"
  Pages :: "page_result list"
  DeleteObject :: "'b \<Rightarrow> string \<Rightarrow> string option \<Rightarrow> string option \<times> 'b"

subsection \<open>The scan\<close>

definition emit :: "event \<Rightarrow> 'b scan_state \<Rightarrow> 'b scan_state" where
  "emit e st = st\<lparr>events := events st @ [e]\<rparr>"

text \<open>
  The body of the inner loop (lines 90-122) for one object. The second component is \<open>None\<close>
  when the loop goes on to the next object and \<open>Some NilPanic\<close> when the body dereferences
  a nil pointer: \<open>obj.LastModified.Before\<close> on line 90, \<open>*obj.Key\<close> on lines 108, 116 and
  118. The arguments of a print are evaluated before it prints, so a panic leaves no line.
\<close>

definition process_object ::
  "('b \<Rightarrow> string \<Rightarrow> string option \<Rightarrow> string option \<times> 'b) \<Rightarrow> string \<Rightarrow> time \<Rightarrow> bool \<Rightarrow> bool \<Rightarrow>
   'b scan_state \<Rightarrow> s3_object \<Rightarrow> 'b scan_state \<times> ending option" where
  "process_object del bucket cutoff isDryRun isReport st obj =
     (case LastModified obj of
        None \<Rightarrow> (st, Some NilPanic)
      | Some lm \<Rightarrow>
          if Before lm cutoff then
            let st1 = st\<lparr>staleCount := staleCount st + 1\<rparr>;
                st2 = (case Size obj of
                         None \<Rightarrow> st1
                       | Some sz \<Rightarrow> st1\<lparr>totalSize := totalSize st1 + sz\<rparr>)
            in
              if isReport then (st2, None)
              else if isDryRun then
                (case Key obj of
                   None \<Rightarrow> (st2, Some NilPanic)
                 | Some k \<Rightarrow> (emit (DryRunLine k lm (sizeMB (Size obj))) st2, None))
              else
                (case del (backend st2) bucket (Key obj) of
                   (err, be) \<Rightarrow>
                     let st3 = emit (DeleteObjectCall bucket (Key obj) err) (st2\<lparr>backend := be\<rparr>)
                     in
                       (case err of
                          Some e \<Rightarrow>
                            (case Key obj of
                               None \<Rightarrow> (st3, Some NilPanic)
                             | Some k \<Rightarrow> (emit (DeleteWarning k e) st3, None))
                        | None \<Rightarrow>
                            (case Key obj of
                               None \<Rightarrow> (st3, Some NilPanic)
                             | Some k \<Rightarrow>
                                 ((emit (DeletedLine k) st3)
                                    \<lparr>deletedCount := deletedCount st3 + 1\<rparr>, None))))
          else (st, None))"

text \<open>The inner loop, \<open>for _, obj := range page.Contents\<close> (line 89).\<close>

fun range_contents ::
  "('b \<Rightarrow> string \<Rightarrow> string option \<Rightarrow> string option \<times> 'b) \<Rightarrow> string \<Rightarrow> time \<Rightarrow> bool \<Rightarrow> bool \<Rightarrow>
   'b scan_state \<Rightarrow> s3_object list \<Rightarrow> 'b scan_state \<times> ending option" where
  "range_contents del bucket cutoff isDryRun isReport st [] = (st, None)"
| "range_contents del bucket cutoff isDryRun isReport st (obj # objs) =
     (case process_object del bucket cutoff isDryRun isReport st obj of
        (st', None) \<Rightarrow> range_contents del bucket cutoff isDryRun isReport st' objs
      | (st', Some t) \<Rightarrow> (st', Some t))"

text \<open>
  The pagination loop (lines 83-124) over the results of the successive \<open>NextPage\<close> calls:
  an error is fatal (line 86), a page is ranged over.
\<close>

fun pagination_loop ::
  "('b \<Rightarrow> string \<Rightarrow> string option \<Rightarrow> string option \<times> 'b) \<Rightarrow> string \<Rightarrow> time \<Rightarrow> bool \<Rightarrow> bool \<Rightarrow>
   'b scan_state \<Rightarrow> page_result list \<Rightarrow> 'b scan_state \<times> ending option" where
  "pagination_loop del bucket cutoff isDryRun isReport st [] = (st, None)"
| "pagination_loop del bucket cutoff isDryRun isReport st (NextPageError e # rest) =
     (emit (FatalListObjects e) st, Some Fatal)"
| "pagination_loop del bucket cutoff isDryRun isReport st (NextPageOk contents # rest) =
     (case range_contents del bucket cutoff isDryRun isReport st contents of
        (st', None) \<Rightarrow> pagination_loop del bucket cutoff isDryRun isReport st' rest
      | (st', Some t) \<Rightarrow> (st', Some t))"

text \<open>
  The summary (lines 127-147): the separator, the two \<open>float64\<close> values of lines 130 and
  131, and one of three reports.
\<close>

definition summary :: "bool \<Rightarrow> bool \<Rightarrow> 'b scan_state \<Rightarrow> 'b scan_state" where
  "summary isDryRun isReport st =
     (let st1 = emit Separator st;
          gb = sizeInGB (totalSize st1);
          savings = estimatedSavings (totalSize st1)
      in
      if isReport then
        emit ReportPricingNote
          (emit (ReportSavings savings)
            (emit (ReportReclaimable gb)
              (emit (ReportStaleObjects (staleCount st1))
                (emit ReportHeader st1))))
      else if isDryRun then
        emit DryRunHint (emit (DryRunSummary (staleCount st1) gb) st1)
      else
        emit (CleanupSummary (deletedCount st1)) st1)"

definition initial_state :: "'b \<Rightarrow> 'b scan_state" where
  "initial_state be =
     \<lparr>backend = be, staleCount = 0, totalSize = 0, deletedCount = 0, events = []\<rparr>"

definition cutoff_of :: "'b environment \<Rightarrow> int \<Rightarrow> time" where
  "cutoff_of env days = AddDate env (Now env) 0 0 (- days)"

text \<open>
  \<open>runScan\<close>, started on a backend in state \<open>be\<close>: the final state with its trace, and how
  the process ended.
\<close>

definition runScan ::
  "'b environment \<Rightarrow> 'b \<Rightarrow> string \<Rightarrow> int \<Rightarrow> bool \<Rightarrow> bool \<Rightarrow> 'b scan_state \<times> ending" where
  "runScan env be bucket days isDryRun isReport =
     (case LoadDefaultConfig env of
        Some e \<Rightarrow> (emit (FatalConfig e) (initial_state be), Fatal)
      | None \<Rightarrow>
          let cutoff = cutoff_of env days;
              st0 = emit (ScanBanner bucket cutoff days) (initial_state be)
          in
            (case pagination_loop (DeleteObject env) bucket cutoff isDryRun isReport st0 (Pages env) of
               (st, Some t) \<Rightarrow> (st, t)
             | (st, None) \<Rightarrow> (summary isDryRun isReport st, Returned)))"

text \<open>
  The \<open>scan\<close> command as the shell sees it: the exit status of the process that ran
  \<open>runScan\<close> (\<open>main\<close> returns after \<open>runScan\<close> returns, lines 40-42 and 54-57).
\<close>

definition scan_exit_status :: "'b environment \<Rightarrow> 'b \<Rightarrow> string \<Rightarrow> int \<Rightarrow> bool \<Rightarrow> bool \<Rightarrow> int" where
  "scan_exit_status env be bucket days isDryRun isReport =
     exit_status (snd (runScan env be bucket days isDryRun isReport))"

subsection \<open>Vocabulary of the properties\<close>

text \<open>Kinds of entries of the trace.\<close>

fun is_delete_call :: "event \<Rightarrow> bool" where
  "is_delete_call (DeleteObjectCall b k r) = True"
| "is_delete_call _ = False"

fun is_dry_run_line :: "event \<Rightarrow> bool" where
  "is_dry_run_line (DryRunLine k t s) = True"
| "is_dry_run_line _ = False"

text \<open>The key and the time a dry-run line shows.\<close>

fun line_target :: "event \<Rightarrow> string option \<times> time option" where
  "line_target (DryRunLine k t s) = (Some k, Some t)"
| "line_target _ = (None, None)"

text \<open>
  An object is stale when line 90 takes the branch, fresh when it does not; an object whose
  \<open>LastModified\<close> is nil is neither (line 90 panics).
\<close>

definition is_stale :: "time \<Rightarrow> s3_object \<Rightarrow> bool" where
  "is_stale cutoff obj =
     (case LastModified obj of None \<Rightarrow> False | Some lm \<Rightarrow> Before lm cutoff)"

definition is_fresh :: "time \<Rightarrow> s3_object \<Rightarrow> bool" where
  "is_fresh cutoff obj =
     (case LastModified obj of None \<Rightarrow> False | Some lm \<Rightarrow> \<not> Before lm cutoff)"

text \<open>A listing with the fresh objects taken out of every page.\<close>

fun drop_fresh :: "time \<Rightarrow> page_result \<Rightarrow> page_result" where
  "drop_fresh cutoff (NextPageError e) = NextPageError e"
| "drop_fresh cutoff (NextPageOk contents) =
     NextPageOk (filter (\<lambda>obj. \<not> is_fresh cutoff obj) contents)"


text \<open>
  The bucket and the key pointer a \<open>client.DeleteObject\<close> call was made with, and
  whether it returned an error.
\<close>

fun call_target :: "event \<Rightarrow> string \<times> string option" where
  "call_target (DeleteObjectCall b k r) = (b, k)"
| "call_target _ = ([], None)"


fun is_successful_delete :: "event \<Rightarrow> bool" where
  "is_successful_delete (DeleteObjectCall b k None) = True"
| "is_successful_delete _ = False"

text \<open>What lines 127-147 print: the separator and the lines of the three summaries.\<close>

fun is_summary_event :: "event \<Rightarrow> bool" where
  "is_summary_event Separator = True"
| "is_summary_event ReportHeader = True"
| "is_summary_event (ReportStaleObjects n) = True"
| "is_summary_event (ReportReclaimable b) = True"
| "is_summary_event (ReportSavings b) = True"
| "is_summary_event ReportPricingNote = True"
| "is_summary_event (DryRunSummary n b) = True"
| "is_summary_event DryRunHint = True"
| "is_summary_event (CleanupSummary n) = True"
| "is_summary_event _ = False"

fun page_ok :: "page_result \<Rightarrow> bool" where
  "page_ok (NextPageOk contents) = True"
| "page_ok (NextPageError e) = False"

text \<open>
  The objects the pagination loop gets to see: those of the pages up to the first failed
  \<open>NextPage\<close>.
\<close>

fun listed :: "page_result list \<Rightarrow> s3_object list" where
  "listed [] = []"
| "listed (NextPageError e # rest) = []"
| "listed (NextPageOk contents # rest) = contents @ listed rest"

text \<open>What an object adds to the byte total when it is stale (lines 94-96).\<close>

definition known_size :: "s3_object \<Rightarrow> int64" where
  "known_size obj = (case Size obj of None \<Rightarrow> 0 | Some sz \<Rightarrow> sz)"

text \<open>
  The figures of the specification, in exact arithmetic: the size in GB as the byte total
  divided by \<open>1024^3\<close>, the savings as that size times 0.023, and the savings to four
  decimal places as a count of units of \<open>10^-4\<close> (the nearest one, the even one of two
  equally near).
\<close>

definition spec_GB :: "int64 \<Rightarrow> rat" where
  "spec_GB bytes = of_int (sint bytes) / 1024 ^ 3"

definition spec_savings :: "int64 \<Rightarrow> rat" where
  "spec_savings bytes = spec_GB bytes * (23 / 1000)"

definition spec_savings_4dp :: "int64 \<Rightarrow> int" where
  "spec_savings_4dp bytes = round_half_even (sint bytes * 23 * 10 ^ 4) (1024 ^ 3 * 1000)"

text \<open>
  The pointers the loop body dereferences without a check are not nil: \<open>LastModified\<close>
  of every object, and \<open>Key\<close> of a stale object unless the run is report-only.
\<close>

definition derefs_ok :: "time \<Rightarrow> bool \<Rightarrow> s3_object \<Rightarrow> bool" where
  "derefs_ok cutoff isReport obj =
     (case LastModified obj of
        None \<Rightarrow> False
      | Some lm \<Rightarrow> if Before lm cutoff \<and> \<not> isReport then Key obj \<noteq> None else True)"

text \<open>
  Two differences that a live run keeps at zero: stale objects without a delete call, and
  successful delete calls not counted in \<open>deletedCount\<close>.
\<close>

definition uncalled :: "'b scan_state \<Rightarrow> int" where
  "uncalled st = staleCount st - int (length (filter is_delete_call (events st)))"

definition unconfirmed :: "'b scan_state \<Rightarrow> int" where
  "unconfirmed st = int (length (filter is_successful_delete (events st))) - deletedCount st"

abbreviation live_run :: "'b environment \<Rightarrow> 'b \<Rightarrow> string \<Rightarrow> int \<Rightarrow> 'b scan_state \<times> ending" where
  "live_run env be bucket days \<equiv> runScan env be bucket days False False"

subsection \<open>A concrete run\<close>

text \<open>
  The example of the specification, with the day as the unit of time: today is day 100,
  the threshold is 30 days, object A was modified 40 days ago and holds 1 GiB, object B
  was modified 5 days ago and holds 2 GiB. The state of the backend is the number of
  objects it has deleted, and every delete succeeds.
\<close>

definition obj_A :: s3_object where
  "obj_A = \<lparr>Key = Some ''A'', LastModified = Some 60, Size = Some 1073741824\<rparr>"

definition obj_B :: s3_object where
  "obj_B = \<lparr>Key = Some ''B'', LastModified = Some 95, Size = Some 2147483648\<rparr>"

definition example_env :: "nat environment" where
  "example_env =
     \<lparr>LoadDefaultConfig = None, Now = 100, AddDate = (\<lambda>t y m d. t + d),
      Pages = [NextPageOk [obj_A, obj_B]],
      DeleteObject = (\<lambda>be bucket key. (None, Suc be))\<rparr>"

text \<open>
  A second listing, of two pages: C is stale and has no size, D is stale. The backend
  refuses to delete C.
\<close>

definition obj_C :: s3_object where
  "obj_C = \<lparr>Key = Some ''C'', LastModified = Some 10, Size = None\<rparr>"

definition obj_D :: s3_object where
  "obj_D = \<lparr>Key = Some ''D'', LastModified = Some 20, Size = Some 512\<rparr>"

definition flaky_env :: "nat environment" where
  "flaky_env =
     \<lparr>LoadDefaultConfig = None, Now = 100, AddDate = (\<lambda>t y m d. t + d),
      Pages = [NextPageOk [obj_A, obj_B], NextPageOk [obj_C, obj_D]],
      DeleteObject = (\<lambda>be bucket key.
         if key = Some ''C'' then (Some ''AccessDenied'', be) else (None, Suc be))\<rparr>"

text \<open>
  Variations of the first listing: the configuration cannot be loaded; the second
  \<open>NextPage\<close> fails; an object has no key; two objects report a size of \<open>2^62\<close> bytes.
\<close>

definition broken_env :: "nat environment" where
  "broken_env = example_env\<lparr>LoadDefaultConfig := Some ''no credentials''\<rparr>"

definition failing_env :: "nat environment" where
  "failing_env =
     example_env\<lparr>Pages :=
       [NextPageOk [obj_A, obj_B], NextPageError ''timeout'', NextPageOk [obj_D]]\<rparr>"

definition obj_N :: s3_object where
  "obj_N = \<lparr>Key = None, LastModified = Some 10, Size = Some 1\<rparr>"

definition nil_key_env :: "nat environment" where
  "nil_key_env = example_env\<lparr>Pages := [NextPageOk [obj_A, obj_N]]\<rparr>"

definition obj_P :: s3_object where
  "obj_P = \<lparr>Key = Some ''P'', LastModified = Some 1, Size = Some 4611686018427387904\<rparr>"

definition obj_Q :: s3_object where
  "obj_Q = \<lparr>Key = Some ''Q'', LastModified = Some 2, Size = Some 4611686018427387904\<rparr>"

definition huge_env :: "nat environment" where
  "huge_env = example_env\<lparr>Pages := [NextPageOk [obj_P, obj_Q]]\<rparr>"

text \<open>The equations that evaluate a run on concrete data.\<close>

lemmas run_defs = runScan_def cutoff_of_def initial_state_def process_object_def summary_def
  emit_def Before_def Let_def

section \<open>Properties\<close>

subsection \<open>Fresh objects leave no mark\<close>

lemma process_object_fresh:
  "is_fresh cutoff obj \<Longrightarrow> process_object del bucket cutoff dry rep st obj = (st, None)"
  by (simp add: process_object_def is_fresh_def split: option.splits)

lemma range_contents_drop_fresh:
  "range_contents del bucket cutoff dry rep st (filter (\<lambda>obj. \<not> is_fresh cutoff obj) objs)
     = range_contents del bucket cutoff dry rep st objs"
  by (induction objs arbitrary: st) (simp_all add: process_object_fresh)

lemma pagination_loop_drop_fresh:
  "pagination_loop del bucket cutoff dry rep st (map (drop_fresh cutoff) pages)
     = pagination_loop del bucket cutoff dry rep st pages"
proof (induction pages arbitrary: st)
  case Nil
  show ?case by simp
next
  case (Cons p pages)
  show ?case
  proof (cases p)
    case (NextPageError e)
    then show ?thesis by simp
  next
    case (NextPageOk contents)
    then show ?thesis
      by (simp add: range_contents_drop_fresh Cons.IH)
  qed
qed

lemma stale_step_count:
  "LastModified obj = Some lm \<Longrightarrow>
     (staleCount (fst (process_object del bucket cutoff dry rep st obj)) = staleCount st + 1)
       = (lm < cutoff)"
  by (simp add: process_object_def Let_def emit_def Before_def split: option.splits prod.splits)

subsection \<open>How the iteration can end\<close>

lemma process_object_ending:
  "process_object del bucket cutoff isDryRun isReport st obj = (st', Some t) \<Longrightarrow> t = NilPanic"
  by (auto simp: process_object_def Let_def split: option.splits if_splits prod.splits)

lemma range_contents_ending:
  "range_contents del bucket cutoff isDryRun isReport st objs = (st', Some t) \<Longrightarrow> t = NilPanic"
  by (induction objs arbitrary: st)
     (auto split: prod.splits option.splits dest: process_object_ending)

lemma pagination_loop_ending:
  "pagination_loop del bucket cutoff isDryRun isReport st pages = (st', Some Returned) \<Longrightarrow> False"
proof (induction pages arbitrary: st)
  case Nil
  then show ?case by simp
next
  case (Cons p pages)
  from Cons.prems show ?case
    by (cases p) (auto split: prod.splits option.splits dest: range_contents_ending Cons.IH)
qed

lemma runScan_cases [case_names config stopped returned]:
  obtains e where "LoadDefaultConfig env = Some e"
      and "runScan env be bucket days isDryRun isReport
             = (emit (FatalConfig e) (initial_state be), Fatal)"
  | st t where "LoadDefaultConfig env = None"
      and "pagination_loop (DeleteObject env) bucket (cutoff_of env days) isDryRun isReport
             (emit (ScanBanner bucket (cutoff_of env days) days) (initial_state be)) (Pages env)
             = (st, Some t)"
      and "runScan env be bucket days isDryRun isReport = (st, t)" and "t \<noteq> Returned"
  | st where "LoadDefaultConfig env = None"
      and "pagination_loop (DeleteObject env) bucket (cutoff_of env days) isDryRun isReport
             (emit (ScanBanner bucket (cutoff_of env days) days) (initial_state be)) (Pages env)
             = (st, None)"
      and "runScan env be bucket days isDryRun isReport = (summary isDryRun isReport st, Returned)"
proof (cases "LoadDefaultConfig env")
  case (Some e)
  then show ?thesis using that(1) by (simp add: runScan_def)
next
  case None
  let ?loop = "pagination_loop (DeleteObject env) bucket (cutoff_of env days) isDryRun isReport
             (emit (ScanBanner bucket (cutoff_of env days) days) (initial_state be)) (Pages env)"
  obtain st t where loop: "?loop = (st, t)" by (cases ?loop)
  show ?thesis
  proof (cases t)
    case None': None
    with None loop show ?thesis using that(3) by (simp add: runScan_def Let_def)
  next
    case (Some u)
    with loop have "u \<noteq> Returned" by (auto dest: pagination_loop_ending)
    with None loop Some show ?thesis using that(2) by (simp add: runScan_def Let_def)
  qed
qed

subsection \<open>Report-only and dry-run never delete\<close>

lemma process_object_no_delete:
  "isReport \<or> isDryRun \<Longrightarrow>
   process_object del bucket cutoff isDryRun isReport st obj = (st', t) \<Longrightarrow>
     filter is_delete_call (events st') = filter is_delete_call (events st) \<and>
     backend st' = backend st"
  by (auto simp: process_object_def Let_def emit_def split: option.splits if_splits)

lemma range_contents_no_delete:
  "isReport \<or> isDryRun \<Longrightarrow>
   range_contents del bucket cutoff isDryRun isReport st objs = (st', t) \<Longrightarrow>
     filter is_delete_call (events st') = filter is_delete_call (events st) \<and>
     backend st' = backend st"
proof (induction objs arbitrary: st)
  case Nil
  then show ?case by simp
next
  case (Cons obj objs)
  from Cons.prems(2) show ?case
    by (auto split: prod.splits option.splits
        dest!: process_object_no_delete [OF Cons.prems(1)] Cons.IH [OF Cons.prems(1)])
qed

lemma pagination_loop_no_delete:
  "isReport \<or> isDryRun \<Longrightarrow>
   pagination_loop del bucket cutoff isDryRun isReport st pages = (st', t) \<Longrightarrow>
     filter is_delete_call (events st') = filter is_delete_call (events st) \<and>
     backend st' = backend st"
proof (induction pages arbitrary: st)
  case Nil
  then show ?case by simp
next
  case (Cons p pages)
  from Cons.prems(2) show ?case
    by (cases p)
      (auto simp: emit_def split: prod.splits option.splits
        dest!: range_contents_no_delete [OF Cons.prems(1)] Cons.IH [OF Cons.prems(1)])
qed

lemma summary_no_delete:
  "filter is_delete_call (events (summary isDryRun isReport st))
     = filter is_delete_call (events st)
   \<and> backend (summary isDryRun isReport st) = backend st"
  by (simp add: summary_def Let_def emit_def)

lemma runScan_no_delete:
  assumes "isReport \<or> isDryRun"
  shows "filter is_delete_call (events (fst (runScan env be bucket days isDryRun isReport))) = []
     \<and> backend (fst (runScan env be bucket days isDryRun isReport)) = be"
proof (cases "LoadDefaultConfig env")
  case (Some e)
  then show ?thesis by (simp add: runScan_def emit_def initial_state_def)
next
  case None
  let ?st0 = "emit (ScanBanner bucket (cutoff_of env days) days) (initial_state be)"
  obtain st t where loop:
    "pagination_loop (DeleteObject env) bucket (cutoff_of env days) isDryRun isReport
       ?st0 (Pages env) = (st, t)"
    by (cases "pagination_loop (DeleteObject env) bucket (cutoff_of env days) isDryRun isReport
                 ?st0 (Pages env)")
  from pagination_loop_no_delete [OF assms loop]
  have inv: "filter is_delete_call (events st) = [] \<and> backend st = be"
    by (simp add: emit_def initial_state_def)
  show ?thesis
    using None loop inv summary_no_delete [of isDryRun isReport st]
    by (cases t) (simp_all add: runScan_def Let_def)
qed

lemma example_report:
  "runScan example_env 0 ''logs'' 30 False True =
     (\<lparr>backend = 0, staleCount = 1, totalSize = 1073741824, deletedCount = 0,
       events = [ScanBanner ''logs'' 70 30, Separator, ReportHeader, ReportStaleObjects 1,
                 ReportReclaimable (sizeInGB 1073741824),
                 ReportSavings (estimatedSavings 1073741824), ReportPricingNote]\<rparr>,
      Returned)"
  by (simp add: runScan_def example_env_def obj_A_def obj_B_def cutoff_of_def initial_state_def
      process_object_def summary_def emit_def Before_def Let_def)

text \<open>
  Claim C2. In report-only mode (\<open>isReport\<close> true), whatever the dry-run flag, the
  configuration, the listing and the backend: the trace of the run holds no call of
  \<open>client.DeleteObject\<close>, and the backend is in the state it started in.
\<close>

theorem report_only_never_deletes:
  "filter is_delete_call (events (fst (runScan env be bucket days isDryRun True))) = [] \<and>
   backend (fst (runScan env be bucket days isDryRun True)) = be"
  by (rule runScan_no_delete) simp

theorem report_only_never_deletes_witness:
  "filter is_delete_call (events (fst (runScan example_env 0 ''logs'' 30 False True))) = [] \<and>
   backend (fst (runScan example_env 0 ''logs'' 30 False True)) = 0 \<and>
   staleCount (fst (runScan example_env 0 ''logs'' 30 False True)) = 1"
  using report_only_never_deletes [of example_env 0 "''logs''" 30 False]
  by (simp add: example_report)

subsection \<open>Dry run: one line per stale object\<close>






lemma example_dry_run:
  "runScan example_env 0 ''logs'' 30 True False =
     (\<lparr>backend = 0, staleCount = 1, totalSize = 1073741824, deletedCount = 0,
       events = [ScanBanner ''logs'' 70 30, DryRunLine ''A'' 60 (sizeMB (Some 1073741824)),
                 Separator, DryRunSummary 1 (sizeInGB 1073741824), DryRunHint]\<rparr>,
      Returned)"
  by (simp add: runScan_def example_env_def obj_A_def obj_B_def cutoff_of_def initial_state_def
      process_object_def summary_def emit_def Before_def Let_def)



subsection \<open>Live run: one delete per stale object\<close>




lemma process_object_live:
  "process_object del bucket cutoff False False st obj = (st', None) \<Longrightarrow>
     map call_target (filter is_delete_call (events st'))
       = map call_target (filter is_delete_call (events st))
         @ map (\<lambda>obj. (bucket, Key obj)) (filter (is_stale cutoff) [obj]) \<and>
     uncalled st' = uncalled st \<and> unconfirmed st' = unconfirmed st"
  by (auto simp: process_object_def Let_def emit_def is_stale_def uncalled_def unconfirmed_def
      split: option.splits if_splits prod.splits)

lemma range_contents_live:
  "range_contents del bucket cutoff False False st objs = (st', None) \<Longrightarrow>
     map call_target (filter is_delete_call (events st'))
       = map call_target (filter is_delete_call (events st))
         @ map (\<lambda>obj. (bucket, Key obj)) (filter (is_stale cutoff) objs) \<and>
     uncalled st' = uncalled st \<and> unconfirmed st' = unconfirmed st"
proof (induction objs arbitrary: st)
  case Nil
  then show ?case by simp
next
  case (Cons obj objs)
  from Cons.prems obtain st1 where
    one: "process_object del bucket cutoff False False st obj = (st1, None)" and
    more: "range_contents del bucket cutoff False False st1 objs = (st', None)"
    by (auto split: prod.splits option.splits)
  from process_object_live [OF one] Cons.IH [OF more] show ?case by simp
qed

lemma pagination_loop_live:
  "pagination_loop del bucket cutoff False False st pages = (st', t) \<Longrightarrow> t \<noteq> Some NilPanic \<Longrightarrow>
     map call_target (filter is_delete_call (events st'))
       = map call_target (filter is_delete_call (events st))
         @ map (\<lambda>obj. (bucket, Key obj)) (filter (is_stale cutoff) (listed pages)) \<and>
     uncalled st' = uncalled st \<and> unconfirmed st' = unconfirmed st"
proof (induction pages arbitrary: st)
  case Nil
  then show ?case by simp
next
  case (Cons p pages)
  show ?case
  proof (cases p)
    case (NextPageError e)
    with Cons.prems show ?thesis
      by (auto simp: emit_def uncalled_def unconfirmed_def)
  next
    case (NextPageOk contents)
    with Cons.prems obtain st1 where
      one: "range_contents del bucket cutoff False False st contents = (st1, None)" and
      more: "pagination_loop del bucket cutoff False False st1 pages = (st', t)"
      by (auto split: prod.splits option.splits dest: range_contents_ending)
    from range_contents_live [OF one] Cons.IH [OF more Cons.prems(2)] NextPageOk
    show ?thesis by simp
  qed
qed




lemma live_run_calls:
  assumes "LoadDefaultConfig env = None" and "snd (live_run env be bucket days) \<noteq> NilPanic"
  shows "map call_target (filter is_delete_call (events (fst (live_run env be bucket days))))
           = map (\<lambda>obj. (bucket, Key obj))
               (filter (is_stale (cutoff_of env days)) (listed (Pages env)))"
proof (cases rule: runScan_cases [of env be bucket days False False])
  case (config e)
  with assms(1) show ?thesis by simp
next
  case (stopped st t)
  with assms have "Some t \<noteq> Some NilPanic" by simp
  from pagination_loop_live [OF stopped(2) this] stopped(3)
  show ?thesis by (simp add: emit_def initial_state_def)
next
  case (returned st)
  from pagination_loop_live [OF returned(2)] returned(3)
  show ?thesis by (simp add: emit_def initial_state_def summary_def)
qed


lemma flaky_live_run:
  "live_run flaky_env 0 ''logs'' 30 =
     (\<lparr>backend = 2, staleCount = 3, totalSize = 1073742336, deletedCount = 2,
       events = [ScanBanner ''logs'' 70 30,
                 DeleteObjectCall ''logs'' (Some ''A'') None, DeletedLine ''A'',
                 DeleteObjectCall ''logs'' (Some ''C'') (Some ''AccessDenied''),
                 DeleteWarning ''C'' ''AccessDenied'',
                 DeleteObjectCall ''logs'' (Some ''D'') None, DeletedLine ''D'',
                 Separator, CleanupSummary 2]\<rparr>,
      Returned)"
  by (simp add: runScan_def flaky_env_def obj_A_def obj_B_def obj_C_def obj_D_def cutoff_of_def
      initial_state_def process_object_def summary_def emit_def Before_def Let_def)



subsection \<open>Nil pointers\<close>

lemma process_object_panic_iff:
  "(snd (process_object del bucket cutoff isDryRun isReport st obj) = None)
     = derefs_ok cutoff isReport obj"
  by (auto simp: process_object_def derefs_ok_def Let_def split: option.splits prod.splits)

lemma range_contents_panic_iff:
  "(snd (range_contents del bucket cutoff isDryRun isReport st objs) = None)
     = list_all (derefs_ok cutoff isReport) objs"
proof (induction objs arbitrary: st)
  case Nil
  show ?case by simp
next
  case (Cons obj objs)
  from process_object_panic_iff [of del bucket cutoff isDryRun isReport st obj] Cons.IH
  show ?case
    by (cases "process_object del bucket cutoff isDryRun isReport st obj")
       (auto split: option.splits)
qed

lemma pagination_loop_ending_of:
  "snd (pagination_loop del bucket cutoff isDryRun isReport st pages)
     = (if \<not> list_all (derefs_ok cutoff isReport) (listed pages) then Some NilPanic
        else if list_all page_ok pages then None else Some Fatal)"
proof (induction pages arbitrary: st)
  case Nil
  show ?case by simp
next
  case (Cons p pages)
  show ?case
  proof (cases p)
    case (NextPageError e)
    then show ?thesis by simp
  next
    case (NextPageOk contents)
    obtain st1 t1 where inner:
      "range_contents del bucket cutoff isDryRun isReport st contents = (st1, t1)"
      by (cases "range_contents del bucket cutoff isDryRun isReport st contents")
    show ?thesis
    proof (cases t1)
      case None
      with inner range_contents_panic_iff [of del bucket cutoff isDryRun isReport st contents]
      have "list_all (derefs_ok cutoff isReport) contents" by simp
      with NextPageOk inner None Cons.IH [of st1] show ?thesis by simp
    next
      case (Some t)
      with inner have "t = NilPanic" by (auto dest: range_contents_ending)
      moreover from Some inner
        range_contents_panic_iff [of del bucket cutoff isDryRun isReport st contents]
      have "\<not> list_all (derefs_ok cutoff isReport) contents" by simp
      ultimately show ?thesis using NextPageOk inner Some by simp
    qed
  qed
qed

lemma runScan_ending_of:
  assumes "LoadDefaultConfig env = None"
  shows "snd (runScan env be bucket days isDryRun isReport)
     = (if \<not> list_all (derefs_ok (cutoff_of env days) isReport) (listed (Pages env)) then NilPanic
        else if list_all page_ok (Pages env) then Returned else Fatal)"
proof (cases rule: runScan_cases [of env be bucket days isDryRun isReport])
  case (config e)
  with assms show ?thesis by simp
next
  case (stopped st t)
  from stopped(2) pagination_loop_ending_of [of "DeleteObject env" bucket "cutoff_of env days"
      isDryRun isReport "emit (ScanBanner bucket (cutoff_of env days) days) (initial_state be)"
      "Pages env"]
  show ?thesis unfolding stopped(3) by (simp split: if_splits)
next
  case (returned st)
  from returned(2) pagination_loop_ending_of [of "DeleteObject env" bucket "cutoff_of env days"
      isDryRun isReport "emit (ScanBanner bucket (cutoff_of env days) days) (initial_state be)"
      "Pages env"]
  show ?thesis unfolding returned(3) by (simp split: if_splits)
qed

lemma derefs_ok_iff:
  "derefs_ok cutoff isReport obj
     = (LastModified obj \<noteq> None \<and> (is_stale cutoff obj \<and> \<not> isReport \<longrightarrow> Key obj \<noteq> None))"
  by (auto simp: derefs_ok_def is_stale_def split: option.splits)

lemma process_object_panics:
  "(snd (process_object del bucket cutoff isDryRun isReport st obj) = Some NilPanic)
     = (LastModified obj = None \<or> (is_stale cutoff obj \<and> \<not> isReport \<and> Key obj = None))"
proof -
  have "(snd (process_object del bucket cutoff isDryRun isReport st obj) = Some NilPanic)
          = (snd (process_object del bucket cutoff isDryRun isReport st obj) \<noteq> None)"
    by (cases "process_object del bucket cutoff isDryRun isReport st obj")
       (auto dest: process_object_ending)
  then show ?thesis
    by (auto simp: process_object_panic_iff derefs_ok_iff)
qed

text \<open>
  Claim C10. The loop body dies of a nil pointer exactly when the object's
  \<open>LastModified\<close> is nil, or the object is stale, the run is not report-only and the
  object's \<open>Key\<close> is nil; \<open>Size\<close> plays no part. So a run whose configuration loads is
  free of nil-pointer panics if and only if every object the loop gets to see (the objects
  of the pages before the first failed \<open>NextPage\<close>) has a \<open>LastModified\<close>, and, outside
  report-only mode, every stale one of them has a \<open>Key\<close>.
\<close>

theorem no_panic_iff_pointers_not_nil:
  "(LoadDefaultConfig env = None \<longrightarrow>
      (snd (runScan env be bucket days isDryRun isReport) \<noteq> NilPanic)
        = (\<forall>obj \<in> set (listed (Pages env)).
             LastModified obj \<noteq> None \<and>
             (is_stale (cutoff_of env days) obj \<and> \<not> isReport \<longrightarrow> Key obj \<noteq> None))) \<and>
   (snd (process_object del bucket cutoff isDryRun isReport st obj) = Some NilPanic)
     = (LastModified obj = None \<or> (is_stale cutoff obj \<and> \<not> isReport \<and> Key obj = None))"
proof (intro conjI impI)
  assume "LoadDefaultConfig env = None"
  then show "(snd (runScan env be bucket days isDryRun isReport) \<noteq> NilPanic)
        = (\<forall>obj \<in> set (listed (Pages env)).
             LastModified obj \<noteq> None \<and>
             (is_stale (cutoff_of env days) obj \<and> \<not> isReport \<longrightarrow> Key obj \<noteq> None))"
    by (auto simp: runScan_ending_of list_all_iff derefs_ok_iff)
next
  show "(snd (process_object del bucket cutoff isDryRun isReport st obj) = Some NilPanic)
     = (LastModified obj = None \<or> (is_stale cutoff obj \<and> \<not> isReport \<and> Key obj = None))"
    by (rule process_object_panics)
qed

theorem no_panic_iff_pointers_not_nil_witness:
  "LoadDefaultConfig example_env = None \<and>
   snd (runScan example_env 0 ''logs'' 30 True False) \<noteq> NilPanic \<and>
   LoadDefaultConfig nil_key_env = None \<and>
   snd (runScan nil_key_env 0 ''logs'' 30 True False) = NilPanic \<and>
   snd (runScan nil_key_env 0 ''logs'' 30 True True) \<noteq> NilPanic \<and>
   snd (process_object (DeleteObject nil_key_env) ''logs'' 70 True False (initial_state 0) obj_N)
     = Some NilPanic \<and>
   snd (process_object (DeleteObject nil_key_env) ''logs'' 70 True False (initial_state 0) obj_C)
     \<noteq> Some NilPanic"
  using no_panic_iff_pointers_not_nil [of example_env 0 "''logs''" 30 True False
      "DeleteObject nil_key_env" 70 "initial_state 0" obj_N]
    no_panic_iff_pointers_not_nil [of nil_key_env 0 "''logs''" 30 True False
      "DeleteObject nil_key_env" 70 "initial_state 0" obj_C]
    no_panic_iff_pointers_not_nil [of nil_key_env 0 "''logs''" 30 True True
      "DeleteObject nil_key_env" 70 "initial_state 0" obj_C]
  by (simp add: example_env_def nil_key_env_def obj_A_def obj_B_def obj_C_def obj_N_def cutoff_of_def is_stale_def Before_def)

subsection \<open>A failed delete\<close>

lemma process_object_failed_delete:
  assumes "LastModified obj = Some lm" and "lm < cutoff" and "Key obj = Some k"
    and "del (backend st) bucket (Some k) = (Some e, be)"
  shows "process_object del bucket cutoff False False st obj
     = (st\<lparr>backend := be, staleCount := staleCount st + 1,
            totalSize := totalSize st + known_size obj,
            events := events st @ [DeleteObjectCall bucket (Some k) (Some e), DeleteWarning k e]\<rparr>,
        None)"
  using assms
  by (simp add: process_object_def Let_def emit_def Before_def known_size_def split: option.splits)

lemma runScan_ending_independent_of_deletes:
  "snd (runScan (env\<lparr>DeleteObject := del\<rparr>) be bucket days isDryRun isReport)
     = snd (runScan env be bucket days isDryRun isReport)"
proof (cases "LoadDefaultConfig env")
  case (Some e)
  then show ?thesis by (simp add: runScan_def)
next
  case None
  then show ?thesis by (simp add: runScan_ending_of cutoff_of_def)
qed

text \<open>
  Claim C6. In a live run (dry-run false, report-only false), take a stale object with key
  \<open>k\<close> whose delete returns the error \<open>e\<close>. The loop body makes that one call, logs one
  warning carrying \<open>k\<close> and \<open>e\<close> (line 116), and goes on: the stale count and the byte
  total are raised as for any stale object, the deleted count is what it was, the backend
  is in the state the failed call left it in, and the inner loop continues with the next
  object from exactly that state. No outcome of a delete changes the way a run ends:
  replacing \<open>client.DeleteObject\<close> by any other behaviour leaves the ending (returned,
  fatal, panic) the same.
\<close>

theorem delete_failure_is_not_fatal:
  "LastModified obj = Some lm \<Longrightarrow> lm < cutoff \<Longrightarrow> Key obj = Some k \<Longrightarrow>
   del (backend st) bucket (Some k) = (Some e, be') \<Longrightarrow>
     process_object del bucket cutoff False False st obj
       = (st\<lparr>backend := be', staleCount := staleCount st + 1,
              totalSize := totalSize st + known_size obj,
              events := events st
                @ [DeleteObjectCall bucket (Some k) (Some e), DeleteWarning k e]\<rparr>,
          None) \<and>
     deletedCount (fst (process_object del bucket cutoff False False st obj)) = deletedCount st \<and>
     range_contents del bucket cutoff False False st (obj # objs)
       = range_contents del bucket cutoff False False
           (st\<lparr>backend := be', staleCount := staleCount st + 1,
               totalSize := totalSize st + known_size obj,
               events := events st
                 @ [DeleteObjectCall bucket (Some k) (Some e), DeleteWarning k e]\<rparr>) objs \<and>
     snd (live_run (env\<lparr>DeleteObject := del\<rparr>) be bucket days) = snd (live_run env be bucket days)"
proof (intro conjI)
  assume a: "LastModified obj = Some lm" "lm < cutoff" "Key obj = Some k"
    "del (backend st) bucket (Some k) = (Some e, be')"
  show step: "process_object del bucket cutoff False False st obj
       = (st\<lparr>backend := be', staleCount := staleCount st + 1,
              totalSize := totalSize st + known_size obj,
              events := events st
                @ [DeleteObjectCall bucket (Some k) (Some e), DeleteWarning k e]\<rparr>,
          None)"
    using a by (rule process_object_failed_delete)
  show "deletedCount (fst (process_object del bucket cutoff False False st obj)) = deletedCount st"
    by (simp add: step)
  show "range_contents del bucket cutoff False False st (obj # objs)
       = range_contents del bucket cutoff False False
           (st\<lparr>backend := be', staleCount := staleCount st + 1,
               totalSize := totalSize st + known_size obj,
               events := events st
                 @ [DeleteObjectCall bucket (Some k) (Some e), DeleteWarning k e]\<rparr>) objs"
    by (simp add: step)
  show "snd (live_run (env\<lparr>DeleteObject := del\<rparr>) be bucket days) = snd (live_run env be bucket days)"
    by (rule runScan_ending_independent_of_deletes)
qed

theorem delete_failure_is_not_fatal_witness:
  "LastModified obj_C = Some 10 \<and> (10 :: int) < 70 \<and> Key obj_C = Some ''C'' \<and>
   DeleteObject flaky_env (backend (initial_state 0)) ''logs'' (Some ''C'')
     = (Some ''AccessDenied'', 0) \<and>
   process_object (DeleteObject flaky_env) ''logs'' 70 False False (initial_state 0) obj_C
     = (\<lparr>backend = 0, staleCount = 1, totalSize = 0, deletedCount = 0,
         events = [DeleteObjectCall ''logs'' (Some ''C'') (Some ''AccessDenied''),
                   DeleteWarning ''C'' ''AccessDenied'']\<rparr>, None) \<and>
   range_contents (DeleteObject flaky_env) ''logs'' 70 False False (initial_state 0)
       [obj_C, obj_D]
     = (\<lparr>backend = 1, staleCount = 2, totalSize = 512, deletedCount = 1,
         events = [DeleteObjectCall ''logs'' (Some ''C'') (Some ''AccessDenied''),
                   DeleteWarning ''C'' ''AccessDenied'',
                   DeleteObjectCall ''logs'' (Some ''D'') None, DeletedLine ''D'']\<rparr>, None) \<and>
   snd (live_run (example_env\<lparr>DeleteObject := DeleteObject flaky_env\<rparr>) 0 ''logs'' 30)
     = Returned"
proof -
  have a: "LastModified obj_C = Some 10" and b: "(10 :: int) < 70"
    and c: "Key obj_C = Some ''C''"
    and d: "DeleteObject flaky_env (backend (initial_state 0)) ''logs'' (Some ''C'')
              = (Some ''AccessDenied'', 0)"
    by (simp_all add: flaky_env_def obj_C_def initial_state_def)
  have e: "snd (live_run example_env 0 ''logs'' 30) = Returned"
    by (simp add: run_defs example_env_def obj_A_def obj_B_def)
  from delete_failure_is_not_fatal [where obj = obj_C and lm = 10 and cutoff = 70
      and k = "''C''" and del = "DeleteObject flaky_env" and st = "initial_state 0"
      and bucket = "''logs''" and e = "''AccessDenied''" and be' = 0 and objs = "[obj_D]"
      and env = example_env and be = 0 and days = 30] a b c d e
  show ?thesis
    by (simp add: flaky_env_def obj_C_def obj_D_def initial_state_def known_size_def process_object_def emit_def
        Before_def Let_def)
qed

subsection \<open>A failed page\<close>

lemma pagination_loop_append:
  "pagination_loop del bucket cutoff isDryRun isReport st (pre @ post)
     = (case pagination_loop del bucket cutoff isDryRun isReport st pre of
          (st', None) \<Rightarrow> pagination_loop del bucket cutoff isDryRun isReport st' post
        | (st', Some t) \<Rightarrow> (st', Some t))"
proof (induction pre arbitrary: st)
  case Nil
  show ?case by simp
next
  case (Cons p pre)
  show ?case
    by (cases p) (simp_all add: Cons.IH split: prod.splits option.splits)
qed

lemma process_object_no_summary:
  "process_object del bucket cutoff isDryRun isReport st obj = (st', t) \<Longrightarrow>
     filter is_summary_event (events st') = filter is_summary_event (events st)"
  by (auto simp: process_object_def Let_def emit_def split: option.splits if_splits prod.splits)

lemma range_contents_no_summary:
  "range_contents del bucket cutoff isDryRun isReport st objs = (st', t) \<Longrightarrow>
     filter is_summary_event (events st') = filter is_summary_event (events st)"
  by (induction objs arbitrary: st)
     (auto split: prod.splits option.splits dest: process_object_no_summary)

lemma pagination_loop_no_summary:
  "pagination_loop del bucket cutoff isDryRun isReport st pages = (st', t) \<Longrightarrow>
     filter is_summary_event (events st') = filter is_summary_event (events st)"
proof (induction pages arbitrary: st)
  case Nil
  then show ?case by simp
next
  case (Cons p pages)
  from Cons.prems show ?case
    by (cases p)
       (auto simp: emit_def split: prod.splits option.splits
         dest!: range_contents_no_summary Cons.IH)
qed

lemma runScan_no_summary:
  assumes "snd (runScan env be bucket days isDryRun isReport) \<noteq> Returned"
  shows "filter is_summary_event (events (fst (runScan env be bucket days isDryRun isReport))) = []"
proof (cases rule: runScan_cases [of env be bucket days isDryRun isReport])
  case (config e)
  then show ?thesis by (simp add: emit_def initial_state_def)
next
  case (stopped st t)
  from pagination_loop_no_summary [OF stopped(2)] stopped(3)
  show ?thesis by (simp add: emit_def initial_state_def)
next
  case (returned st)
  with assms show ?thesis by simp
qed

lemma runScan_page_failure:
  assumes cfg: "LoadDefaultConfig env = None"
    and pages: "Pages env = pre @ NextPageError e # rest"
    and ok: "list_all page_ok pre"
    and ptr: "list_all (derefs_ok (cutoff_of env days) isReport) (listed pre)"
  shows "runScan env be bucket days isDryRun isReport
     = (emit (FatalListObjects e)
          (fst (pagination_loop (DeleteObject env) bucket (cutoff_of env days) isDryRun isReport
                  (emit (ScanBanner bucket (cutoff_of env days) days) (initial_state be)) pre)),
        Fatal)"
proof -
  let ?st0 = "emit (ScanBanner bucket (cutoff_of env days) days) (initial_state be)"
  let ?pre = "pagination_loop (DeleteObject env) bucket (cutoff_of env days) isDryRun isReport
                ?st0 pre"
  from ok ptr have "snd ?pre = None" by (simp add: pagination_loop_ending_of)
  then obtain st1 where pre: "?pre = (st1, None)" by (cases ?pre) simp
  have "pagination_loop (DeleteObject env) bucket (cutoff_of env days) isDryRun isReport
                ?st0 (pre @ NextPageError e # rest)
             = (emit (FatalListObjects e) (fst ?pre), Some Fatal)"
    by (simp add: pagination_loop_append pre)
  with cfg pages show ?thesis by (simp add: runScan_def Let_def)
qed

text \<open>
  Claim C7. Let the configuration load, let the pages \<open>pre\<close> be listed without error and
  hold no nil pointer the loop dereferences, and let the next \<open>NextPage\<close> fail with \<open>e\<close>.
  Then the run ends fatally (\<open>log.Fatalf\<close>, line 86) in the state the pages \<open>pre\<close> left,
  with the diagnostic carrying \<open>e\<close> as the last entry of the trace; the trace holds no
  separator and no summary line of any kind, whatever the counters have accumulated; and
  what the listing would have held after the failure has no effect on the run.
\<close>

theorem page_failure_is_fatal:
  "LoadDefaultConfig env = None \<Longrightarrow> Pages env = pre @ NextPageError e # rest \<Longrightarrow>
   list_all page_ok pre \<Longrightarrow>
   list_all (derefs_ok (cutoff_of env days) isReport) (listed pre) \<Longrightarrow>
     runScan env be bucket days isDryRun isReport
       = (emit (FatalListObjects e)
            (fst (pagination_loop (DeleteObject env) bucket (cutoff_of env days) isDryRun isReport
                    (emit (ScanBanner bucket (cutoff_of env days) days) (initial_state be)) pre)),
          Fatal) \<and>
     filter is_summary_event (events (fst (runScan env be bucket days isDryRun isReport))) = [] \<and>
     runScan (env\<lparr>Pages := pre @ NextPageError e # rest'\<rparr>) be bucket days isDryRun isReport
       = runScan env be bucket days isDryRun isReport"
proof (intro conjI)
  assume cfg: "LoadDefaultConfig env = None"
    and pages: "Pages env = pre @ NextPageError e # rest"
    and ok: "list_all page_ok pre"
    and ptr: "list_all (derefs_ok (cutoff_of env days) isReport) (listed pre)"
  note run = runScan_page_failure [OF cfg pages ok ptr, of be bucket isDryRun]
  show "runScan env be bucket days isDryRun isReport
       = (emit (FatalListObjects e)
            (fst (pagination_loop (DeleteObject env) bucket (cutoff_of env days) isDryRun isReport
                    (emit (ScanBanner bucket (cutoff_of env days) days) (initial_state be)) pre)),
          Fatal)"
    by (rule run)
  from run have "snd (runScan env be bucket days isDryRun isReport) \<noteq> Returned" by simp
  then show "filter is_summary_event
               (events (fst (runScan env be bucket days isDryRun isReport))) = []"
    by (rule runScan_no_summary)
  let ?env = "env\<lparr>Pages := pre @ NextPageError e # rest'\<rparr>"
  have "runScan ?env be bucket days isDryRun isReport
     = (emit (FatalListObjects e)
          (fst (pagination_loop (DeleteObject ?env) bucket (cutoff_of ?env days) isDryRun isReport
                  (emit (ScanBanner bucket (cutoff_of ?env days) days) (initial_state be)) pre)),
        Fatal)"
    using cfg ok ptr by (intro runScan_page_failure) (simp_all add: cutoff_of_def)
  with run show "runScan ?env be bucket days isDryRun isReport
                   = runScan env be bucket days isDryRun isReport"
    by (simp add: cutoff_of_def)
qed

theorem page_failure_is_fatal_witness:
  "LoadDefaultConfig failing_env = None \<and>
   Pages failing_env = [NextPageOk [obj_A, obj_B]] @ NextPageError ''timeout'' # [NextPageOk [obj_D]] \<and>
   list_all page_ok [NextPageOk [obj_A, obj_B]] \<and>
   list_all (derefs_ok (cutoff_of failing_env 30) False) (listed [NextPageOk [obj_A, obj_B]]) \<and>
   live_run failing_env 0 ''logs'' 30
     = (\<lparr>backend = 1, staleCount = 1, totalSize = 1073741824, deletedCount = 1,
         events = [ScanBanner ''logs'' 70 30,
                   DeleteObjectCall ''logs'' (Some ''A'') None, DeletedLine ''A'',
                   FatalListObjects ''timeout'']\<rparr>, Fatal) \<and>
   filter is_summary_event (events (fst (live_run failing_env 0 ''logs'' 30))) = [] \<and>
   live_run (failing_env\<lparr>Pages := [NextPageOk [obj_A, obj_B]] @ NextPageError ''timeout'' # []\<rparr>)
       0 ''logs'' 30
     = live_run failing_env 0 ''logs'' 30"
proof -
  have a: "LoadDefaultConfig failing_env = None"
    and b: "Pages failing_env
              = [NextPageOk [obj_A, obj_B]] @ NextPageError ''timeout'' # [NextPageOk [obj_D]]"
    and c: "list_all page_ok [NextPageOk [obj_A, obj_B]]"
    and d: "list_all (derefs_ok (cutoff_of failing_env 30) False)
              (listed [NextPageOk [obj_A, obj_B]])"
    by (simp_all add: failing_env_def example_env_def obj_A_def obj_B_def cutoff_of_def derefs_ok_def Before_def)
  have e: "pagination_loop (DeleteObject failing_env) ''logs'' (cutoff_of failing_env 30)
             False False (emit (ScanBanner ''logs'' (cutoff_of failing_env 30) 30) (initial_state 0))
             [NextPageOk [obj_A, obj_B]]
           = (\<lparr>backend = 1, staleCount = 1, totalSize = 1073741824, deletedCount = 1,
               events = [ScanBanner ''logs'' 70 30,
                         DeleteObjectCall ''logs'' (Some ''A'') None, DeletedLine ''A'']\<rparr>, None)"
    by (simp add: run_defs failing_env_def example_env_def obj_A_def obj_B_def)
  note run = page_failure_is_fatal [OF a b c d, of 0 "''logs''" False "[]"]
  from run [unfolded e] a b c d show ?thesis by (simp add: emit_def)
qed

subsection \<open>Exit status\<close>

text \<open>
  Claim C9. The exit status of the process is 0 exactly when \<open>runScan\<close> returns to
  \<open>main\<close>, which it does when the configuration loads, every page is listed and no nil
  pointer is met. A failed configuration load ends the process inside \<open>runScan\<close> with
  nothing but the diagnostic of line 66 in the trace; a failed page listing ends it inside
  \<open>runScan\<close> (line 86) with no summary. Neither hands an error or a code of its own back
  to \<open>main\<close>: both end through \<open>log.Fatalf\<close>, with its one exit status, 1.
\<close>

theorem exit_status_of_scan:
  "(scan_exit_status env be bucket days isDryRun isReport = 0)
     = (snd (runScan env be bucket days isDryRun isReport) = Returned) \<and>
   (LoadDefaultConfig env = Some e \<longrightarrow>
      runScan env be bucket days isDryRun isReport
        = (emit (FatalConfig e) (initial_state be), Fatal) \<and>
      scan_exit_status env be bucket days isDryRun isReport = 1) \<and>
   (LoadDefaultConfig env = None \<and>
    list_all (derefs_ok (cutoff_of env days) isReport) (listed (Pages env)) \<longrightarrow>
      (if list_all page_ok (Pages env)
       then snd (runScan env be bucket days isDryRun isReport) = Returned \<and>
            scan_exit_status env be bucket days isDryRun isReport = 0
       else snd (runScan env be bucket days isDryRun isReport) = Fatal \<and>
            scan_exit_status env be bucket days isDryRun isReport = 1 \<and>
            filter is_summary_event
              (events (fst (runScan env be bucket days isDryRun isReport))) = []))"
proof (intro conjI impI)
  show "(scan_exit_status env be bucket days isDryRun isReport = 0)
     = (snd (runScan env be bucket days isDryRun isReport) = Returned)"
    by (cases "snd (runScan env be bucket days isDryRun isReport)")
       (simp_all add: scan_exit_status_def)
next
  assume "LoadDefaultConfig env = Some e"
  then show "runScan env be bucket days isDryRun isReport
        = (emit (FatalConfig e) (initial_state be), Fatal)"
    by (simp add: runScan_def)
  then show "scan_exit_status env be bucket days isDryRun isReport = 1"
    by (simp add: scan_exit_status_def)
next
  assume a: "LoadDefaultConfig env = None \<and>
    list_all (derefs_ok (cutoff_of env days) isReport) (listed (Pages env))"
  show "if list_all page_ok (Pages env)
       then snd (runScan env be bucket days isDryRun isReport) = Returned \<and>
            scan_exit_status env be bucket days isDryRun isReport = 0
       else snd (runScan env be bucket days isDryRun isReport) = Fatal \<and>
            scan_exit_status env be bucket days isDryRun isReport = 1 \<and>
            filter is_summary_event
              (events (fst (runScan env be bucket days isDryRun isReport))) = []"
  proof (cases "list_all page_ok (Pages env)")
    case True
    with a show ?thesis by (simp add: runScan_ending_of scan_exit_status_def)
  next
    case False
    with a have f: "snd (runScan env be bucket days isDryRun isReport) = Fatal"
      by (simp add: runScan_ending_of)
    then have "filter is_summary_event
              (events (fst (runScan env be bucket days isDryRun isReport))) = []"
      by (intro runScan_no_summary) simp
    with f False show ?thesis by (simp add: scan_exit_status_def)
  qed
qed

theorem exit_status_of_scan_witness:
  "snd (runScan example_env 0 ''logs'' 30 True False) = Returned \<and>
   scan_exit_status example_env 0 ''logs'' 30 True False = 0 \<and>
   LoadDefaultConfig broken_env = Some ''no credentials'' \<and>
   runScan broken_env 0 ''logs'' 30 True False
     = (\<lparr>backend = 0, staleCount = 0, totalSize = 0, deletedCount = 0,
         events = [FatalConfig ''no credentials'']\<rparr>, Fatal) \<and>
   scan_exit_status broken_env 0 ''logs'' 30 True False = 1 \<and>
   LoadDefaultConfig failing_env = None \<and>
   snd (runScan failing_env 0 ''logs'' 30 True False) = Fatal \<and>
   scan_exit_status failing_env 0 ''logs'' 30 True False = 1 \<and>
   filter is_summary_event (events (fst (runScan failing_env 0 ''logs'' 30 True False))) = []"
  using exit_status_of_scan [of example_env 0 "''logs''" 30 True False "''none''"]
    exit_status_of_scan [of broken_env 0 "''logs''" 30 True False "''no credentials''"]
    exit_status_of_scan [of failing_env 0 "''logs''" 30 True False "''none''"]
  by (simp add: example_env_def broken_env_def failing_env_def obj_A_def obj_B_def
      cutoff_of_def derefs_ok_def Before_def emit_def initial_state_def)

subsection \<open>The byte total\<close>

lemma sint_sum_list:
  "sint (sum_list ws) = signed_take_bit (LENGTH('a) - 1) (sum_list (map sint ws))"
  for ws :: "'a::len word list"
proof (induction ws)
  case Nil
  show ?case by simp
next
  case (Cons w ws)
  have self: "signed_take_bit (LENGTH('a) - 1) (sint w) = sint w"
    by (rule signed_take_bit_int_eq_self) (rule sint_ge, rule sint_lt)
  have "sint (w + sum_list ws) = signed_take_bit (LENGTH('a) - 1) (sint w + sint (sum_list ws))"
    by (simp add: sint_word_ariths)
  also have "\<dots> = signed_take_bit (LENGTH('a) - 1)
       (signed_take_bit (LENGTH('a) - 1) (sint w)
        + signed_take_bit (LENGTH('a) - 1) (sum_list (map sint ws)))"
    by (simp only: Cons.IH self)
  also have "\<dots> = signed_take_bit (LENGTH('a) - 1) (sint w + sum_list (map sint ws))"
    by (simp only: signed_take_bit_add)
  finally show ?case by simp
qed

lemma process_object_total:
  "process_object del bucket cutoff isDryRun isReport st obj = (st', t) \<Longrightarrow>
     totalSize st' = totalSize st + sum_list (map known_size (filter (is_stale cutoff) [obj]))"
  by (auto simp: process_object_def Let_def emit_def is_stale_def known_size_def
      split: option.splits if_splits prod.splits)

lemma range_contents_total:
  "range_contents del bucket cutoff isDryRun isReport st objs = (st', None) \<Longrightarrow>
     totalSize st' = totalSize st + sum_list (map known_size (filter (is_stale cutoff) objs))"
proof (induction objs arbitrary: st)
  case Nil
  then show ?case by simp
next
  case (Cons obj objs)
  from Cons.prems obtain st1 where
    one: "process_object del bucket cutoff isDryRun isReport st obj = (st1, None)" and
    more: "range_contents del bucket cutoff isDryRun isReport st1 objs = (st', None)"
    by (auto split: prod.splits option.splits)
  from process_object_total [OF one] Cons.IH [OF more] show ?case by simp
qed

lemma pagination_loop_total:
  "pagination_loop del bucket cutoff isDryRun isReport st pages = (st', t) \<Longrightarrow>
   t \<noteq> Some NilPanic \<Longrightarrow>
     totalSize st'
       = totalSize st + sum_list (map known_size (filter (is_stale cutoff) (listed pages)))"
proof (induction pages arbitrary: st)
  case Nil
  then show ?case by simp
next
  case (Cons p pages)
  show ?case
  proof (cases p)
    case (NextPageError e)
    with Cons.prems show ?thesis by (auto simp: emit_def)
  next
    case (NextPageOk contents)
    with Cons.prems obtain st1 where
      one: "range_contents del bucket cutoff isDryRun isReport st contents = (st1, None)" and
      more: "pagination_loop del bucket cutoff isDryRun isReport st1 pages = (st', t)"
      by (auto split: prod.splits option.splits dest: range_contents_ending)
    from range_contents_total [OF one] Cons.IH [OF more Cons.prems(2)] NextPageOk
    show ?thesis by simp
  qed
qed

lemma runScan_total:
  assumes "LoadDefaultConfig env = None"
    and "snd (runScan env be bucket days isDryRun isReport) \<noteq> NilPanic"
  shows "totalSize (fst (runScan env be bucket days isDryRun isReport))
     = sum_list (map known_size (filter (is_stale (cutoff_of env days)) (listed (Pages env))))"
proof (cases rule: runScan_cases [of env be bucket days isDryRun isReport])
  case (config e)
  with assms(1) show ?thesis by simp
next
  case (stopped st t)
  with assms have "Some t \<noteq> Some NilPanic" by simp
  from pagination_loop_total [OF stopped(2) this] stopped(3)
  show ?thesis by (simp add: emit_def initial_state_def)
next
  case (returned st)
  from pagination_loop_total [OF returned(2)] returned(3)
  show ?thesis by (simp add: emit_def initial_state_def summary_def Let_def)
qed

lemma pagination_loop_total_fst:
  assumes "snd (pagination_loop del bucket cutoff isDryRun isReport st pages) \<noteq> Some NilPanic"
  shows "totalSize (fst (pagination_loop del bucket cutoff isDryRun isReport st pages))
     = totalSize st + sum_list (map known_size (filter (is_stale cutoff) (listed pages)))"
  using assms
  by (cases "pagination_loop del bucket cutoff isDryRun isReport st pages")
     (auto dest: pagination_loop_total)

text \<open>
  Claim C5, as the code has it. \<open>totalSize\<close> is an \<open>int64\<close> and line 95 adds with
  wrap-around. At every point of a scan that has met no nil pointer (the pagination loop
  started in any state and run over any listing, in particular over any initial part of
  one), the byte total is the total it started from plus the sum, in 64-bit arithmetic, of
  the sizes of the stale objects seen, an object without a size adding 0. For a whole run
  the start is 0, so the final total is that 64-bit sum, and it is the exact sum of the
  sizes, read as signed integers, whenever that sum lies between \<open>-2^63\<close> and \<open>2^63 - 1\<close>.
  A stale object without a size raises the stale count by one and leaves the byte total
  as it was.
\<close>

theorem byte_total_is_wrapping_sum:
  "(snd (pagination_loop del bucket cutoff isDryRun isReport st pages) \<noteq> Some NilPanic \<longrightarrow>
      totalSize (fst (pagination_loop del bucket cutoff isDryRun isReport st pages))
        = totalSize st + sum_list (map known_size (filter (is_stale cutoff) (listed pages)))) \<and>
   (LoadDefaultConfig env = None \<and>
    snd (runScan env be bucket days isDryRun isReport) \<noteq> NilPanic \<longrightarrow>
      totalSize (fst (runScan env be bucket days isDryRun isReport))
        = sum_list (map known_size
            (filter (is_stale (cutoff_of env days)) (listed (Pages env)))) \<and>
      (- (2 ^ 63) \<le> sum_list (map (\<lambda>obj. sint (known_size obj))
                        (filter (is_stale (cutoff_of env days)) (listed (Pages env)))) \<and>
       sum_list (map (\<lambda>obj. sint (known_size obj))
          (filter (is_stale (cutoff_of env days)) (listed (Pages env)))) < 2 ^ 63 \<longrightarrow>
         sint (totalSize (fst (runScan env be bucket days isDryRun isReport)))
           = sum_list (map (\<lambda>obj. sint (known_size obj))
               (filter (is_stale (cutoff_of env days)) (listed (Pages env)))))) \<and>
   (is_stale cutoff obj \<and> Size obj = None \<longrightarrow>
      staleCount (fst (process_object del bucket cutoff isDryRun isReport st obj))
        = staleCount st + 1 \<and>
      totalSize (fst (process_object del bucket cutoff isDryRun isReport st obj))
        = totalSize st)"
proof (intro conjI impI)
  show "totalSize (fst (pagination_loop del bucket cutoff isDryRun isReport st pages))
        = totalSize st + sum_list (map known_size (filter (is_stale cutoff) (listed pages)))"
    if "snd (pagination_loop del bucket cutoff isDryRun isReport st pages) \<noteq> Some NilPanic"
    using that by (rule pagination_loop_total_fst)
next
  assume run: "LoadDefaultConfig env = None \<and>
    snd (runScan env be bucket days isDryRun isReport) \<noteq> NilPanic"
  let ?stale = "filter (is_stale (cutoff_of env days)) (listed (Pages env))"
  from run show word: "totalSize (fst (runScan env be bucket days isDryRun isReport))
        = sum_list (map known_size ?stale)"
    by (simp add: runScan_total)
  assume fits: "- (2 ^ 63) \<le> sum_list (map (\<lambda>obj. sint (known_size obj)) ?stale) \<and>
       sum_list (map (\<lambda>obj. sint (known_size obj)) ?stale) < 2 ^ 63"
  have "sint (sum_list (map known_size ?stale))
          = signed_take_bit 63 (sum_list (map (\<lambda>obj. sint (known_size obj)) ?stale))"
    by (simp add: sint_sum_list comp_def)
  also from fits have "\<dots> = sum_list (map (\<lambda>obj. sint (known_size obj)) ?stale)"
    by (intro signed_take_bit_int_eq_self) simp_all
  finally show "sint (totalSize (fst (runScan env be bucket days isDryRun isReport)))
           = sum_list (map (\<lambda>obj. sint (known_size obj)) ?stale)"
    by (simp only: word)
next
  assume "is_stale cutoff obj \<and> Size obj = None"
  then show "staleCount (fst (process_object del bucket cutoff isDryRun isReport st obj))
        = staleCount st + 1"
    and "totalSize (fst (process_object del bucket cutoff isDryRun isReport st obj))
        = totalSize st"
    by (auto simp: process_object_def Let_def emit_def is_stale_def
        split: option.splits prod.splits)
qed

theorem byte_total_is_wrapping_sum_witness:
  "snd (pagination_loop (DeleteObject flaky_env) ''logs'' 70 False False (initial_state 0)
          (Pages flaky_env)) \<noteq> Some NilPanic \<and>
   totalSize (fst (pagination_loop (DeleteObject flaky_env) ''logs'' 70 False False
                     (initial_state 0) (Pages flaky_env))) = 1073742336 \<and>
   LoadDefaultConfig flaky_env = None \<and>
   snd (live_run flaky_env 0 ''logs'' 30) \<noteq> NilPanic \<and>
   filter (is_stale (cutoff_of flaky_env 30)) (listed (Pages flaky_env)) = [obj_A, obj_C, obj_D] \<and>
   map known_size [obj_A, obj_C, obj_D] = [1073741824, 0, 512] \<and>
   totalSize (fst (live_run flaky_env 0 ''logs'' 30)) = 1073742336 \<and>
   sint (totalSize (fst (live_run flaky_env 0 ''logs'' 30))) = 1073742336 \<and>
   is_stale 70 obj_C \<and> Size obj_C = None \<and>
   staleCount (fst (process_object (DeleteObject flaky_env) ''logs'' 70 False False
                      (initial_state 0) obj_C)) = 1 \<and>
   totalSize (fst (process_object (DeleteObject flaky_env) ''logs'' 70 False False
                     (initial_state 0) obj_C)) = 0"
proof -
  have stale: "filter (is_stale (cutoff_of flaky_env 30)) (listed (Pages flaky_env))
                 = [obj_A, obj_C, obj_D]"
    by (simp add: flaky_env_def obj_A_def obj_B_def obj_C_def obj_D_def cutoff_of_def is_stale_def Before_def)
  have sizes: "known_size obj_A = 1073741824" "known_size obj_C = 0" "known_size obj_D = 512"
    by (simp_all add: obj_A_def obj_C_def obj_D_def known_size_def)
  have c: "is_stale 70 obj_C" "Size obj_C = None"
    by (simp_all add: obj_C_def is_stale_def Before_def)
  have loop: "snd (pagination_loop (DeleteObject flaky_env) ''logs'' 70 False False
                (initial_state 0) (Pages flaky_env)) \<noteq> Some NilPanic"
    unfolding pagination_loop_ending_of
    by (simp add: flaky_env_def obj_A_def obj_B_def obj_C_def obj_D_def derefs_ok_def Before_def)
  have cfg: "LoadDefaultConfig flaky_env = None" by (simp add: flaky_env_def)
  have zero: "staleCount (initial_state (0::nat)) = 0" "totalSize (initial_state (0::nat)) = 0"
    by (simp_all add: initial_state_def)
  have at70: "filter (is_stale 70) (listed (Pages flaky_env)) = [obj_A, obj_C, obj_D]"
    using stale by (simp add: cutoff_of_def flaky_env_def)
  from byte_total_is_wrapping_sum [of "DeleteObject flaky_env" "''logs''" 70 False False
      "initial_state 0" "Pages flaky_env" flaky_env 0 30 obj_C]
  show ?thesis
    by (simp add: stale at70 sizes c loop cfg zero flaky_live_run)
qed

lemma huge_report:
  "runScan huge_env 0 ''logs'' 30 False True =
     (\<lparr>backend = 0, staleCount = 2, totalSize = 9223372036854775808, deletedCount = 0,
       events = [ScanBanner ''logs'' 70 30, Separator, ReportHeader, ReportStaleObjects 2,
                 ReportReclaimable (sizeInGB 9223372036854775808),
                 ReportSavings (estimatedSavings 9223372036854775808),
                 ReportPricingNote]\<rparr>,
      Returned)"
  by (simp add: run_defs huge_env_def example_env_def obj_P_def obj_Q_def)

text \<open>
  Claim C5, as the specification states it, fails on a listing of two stale objects that
  each report a size of \<open>2^62\<close> bytes: the sum of the sizes is \<open>2^63\<close>, and the byte total
  of the run is \<open>-2^63\<close>.
\<close>

theorem byte_total_overflow_counterexample:
  "snd (runScan huge_env 0 ''logs'' 30 False True) = Returned \<and>
   filter (is_stale (cutoff_of huge_env 30)) (listed (Pages huge_env)) = [obj_P, obj_Q] \<and>
   Size obj_P = Some 4611686018427387904 \<and>
   Size obj_Q = Some 4611686018427387904 \<and>
   sint (4611686018427387904 :: int64) + sint (4611686018427387904 :: int64)
     = 9223372036854775808 \<and>
   sint (totalSize (fst (runScan huge_env 0 ''logs'' 30 False True))) = - 9223372036854775808"
  by (simp add: huge_report)
     (simp add: huge_env_def example_env_def obj_P_def obj_Q_def cutoff_of_def is_stale_def
       Before_def)

subsection \<open>The figures of the report\<close>

lemma round_half_even_error:
  assumes "0 < b"
  shows "2 * \<bar>round_half_even a b * b - a\<bar> \<le> b"
proof -
  define q r where "q = a div b" and "r = a mod b"
  have a: "a = q * b + r" by (simp add: q_def r_def)
  have r: "0 \<le> r" "r < b" using assms by (simp_all add: r_def)
  show ?thesis
    unfolding round_half_even_def Let_def q_def [symmetric] r_def [symmetric]
    using r by (auto simp: a algebra_simps)
qed

lemma pricePerGB_value: "pricePerGB = (6629298651489370, - 58)"
  by (simp add: pricePerGB_def round_half_even_def Let_def)


lemma float_value_shift:
  "0 \<le> k \<Longrightarrow> float_value (m, e + k) = of_int (m * 2 ^ nat k) * 2 powi e"
proof -
  assume k: "0 \<le> k"
  have "(2::rat) powi (e + k) = 2 powi e * 2 powi k"
    by (simp add: power_int_add)
  also have "(2::rat) powi k = 2 ^ nat k"
    using k by (simp add: power_int_def)
  finally show ?thesis by (simp add: float_value_def)
qed

lemma round_to_53_error:
  "\<bar>float_value (round_to_53 x) - float_value x\<bar> \<le> \<bar>float_value x\<bar> / 2 ^ 53"
proof (cases "bitlen \<bar>fst x\<bar> - 53 \<le> 0")
  case True
  then show ?thesis by (simp add: round_to_53_def)
next
  case False
  define m e k where "m = fst x" and "e = snd x" and "k = nat (bitlen \<bar>m\<bar> - 53)"
  from False have k: "0 < k" "bitlen \<bar>m\<bar> = int k + 53" by (simp_all add: k_def m_def)
  then have pos: "0 < \<bar>m\<bar>" using bitlen_eq_zero_iff [of "\<bar>m\<bar>"] by linarith
  from bitlen_bounds [OF pos] k have low: "2 ^ (k + 52) \<le> \<bar>m\<bar>"
    by (simp add: nat_add_distrib add.commute)
  define m' where "m' = round_half_even m (2 ^ k)"
  have r: "round_to_53 x = (m', e + int k)"
    using False by (simp add: round_to_53_def m'_def m_def e_def k_def Let_def)
  have half: "2 * \<bar>m' * 2 ^ k - m\<bar> \<le> 2 ^ k"
    unfolding m'_def by (rule round_half_even_error) simp
  have "2 ^ 53 * (2 * \<bar>m' * 2 ^ k - m\<bar>) \<le> 2 ^ 53 * 2 ^ k"
    using half by simp
  also have "(2::int) ^ 53 * 2 ^ k = 2 * 2 ^ (k + 52)"
    by (simp add: power_add)
  also have "\<dots> \<le> 2 * \<bar>m\<bar>" using low by simp
  finally have int_bound: "2 ^ 53 * \<bar>m' * 2 ^ k - m\<bar> \<le> \<bar>m\<bar>" by simp
  have "float_value (round_to_53 x) - float_value x
          = of_int (m' * 2 ^ k - m) * 2 powi e"
    unfolding r using float_value_shift [of "int k" m' e]
    by (simp add: float_value_def m_def e_def algebra_simps)
  then have "\<bar>float_value (round_to_53 x) - float_value x\<bar>
          = of_int \<bar>m' * 2 ^ k - m\<bar> * 2 powi e"
    by (simp add: abs_mult)
  moreover have "\<bar>float_value x\<bar> = of_int \<bar>m\<bar> * 2 powi e"
    by (simp add: float_value_def m_def e_def abs_mult)
  moreover have "(of_int \<bar>m' * 2 ^ k - m\<bar> :: rat) \<le> of_int \<bar>m\<bar> / 2 ^ 53"
  proof -
    have "(of_int (2 ^ 53 * \<bar>m' * 2 ^ k - m\<bar>) :: rat) \<le> of_int \<bar>m\<bar>"
      using int_bound by (simp only: of_int_le_iff)
    then show ?thesis by (simp add: field_simps)
  qed
  ultimately show ?thesis
    by (simp add: divide_simps mult_right_mono)
qed

lemma float_value_fdiv_1024: "float_value (fdiv_1024 x) = float_value x / 1024"
proof -
  have "(2::rat) powi (snd x - 10) = 2 powi (snd x) * 2 powi (- 10)"
    by (simp add: power_int_diff power_int_minus field_simps)
  then show ?thesis by (simp add: float_value_def fdiv_1024_def power_int_minus)
qed

lemma float_value_sizeInGB:
  "float_value (sizeInGB n) = float_value (float64_of_int64 n) / 1024 ^ 3"
  by (simp add: sizeInGB_def float_value_fdiv_1024)

lemma abs_sint64: "\<bar>of_int (sint (n :: int64)) :: rat\<bar> \<le> 2 ^ 63"
proof -
  have "- (2 ^ 63) \<le> sint n" "sint n < 2 ^ 63"
    using sint_ge [of n] sint_lt [of n] by simp_all
  then have "\<bar>sint n\<bar> \<le> 2 ^ 63" by simp
  then have "(of_int \<bar>sint n\<bar> :: rat) \<le> of_int (2 ^ 63)" by (simp only: of_int_le_iff)
  then show ?thesis by simp
qed

lemma float64_of_int64_error:
  "\<bar>float_value (float64_of_int64 n) - of_int (sint n)\<bar> \<le> 2 ^ 10"
proof -
  have v: "float_value (sint n, 0) = of_int (sint n)" by (simp add: float_value_def)
  from round_to_53_error [of "(sint n, 0)"]
  have "\<bar>float_value (float64_of_int64 n) - of_int (sint n)\<bar> \<le> \<bar>of_int (sint n) :: rat\<bar> / 2 ^ 53"
    by (simp add: float64_of_int64_def v)
  also have "\<dots> \<le> 2 ^ 63 / 2 ^ 53" using abs_sint64 [of n] by (simp add: divide_right_mono)
  finally show ?thesis by simp
qed

lemma float64_of_int64_exact:
  assumes "\<bar>sint n\<bar> < 2 ^ 53"
  shows "float64_of_int64 n = (sint n, 0)"
proof -
  from assms have "bitlen \<bar>sint n\<bar> \<le> 53" by (simp add: bitlen_le_iff_power)
  then show ?thesis by (simp add: float64_of_int64_def round_to_53_def)
qed

lemma sizeInGB_error: "\<bar>float_value (sizeInGB n) - spec_GB n\<bar> \<le> 1 / 2 ^ 20"
proof -
  have "float_value (sizeInGB n) - spec_GB n
          = (float_value (float64_of_int64 n) - of_int (sint n)) / 1024 ^ 3"
    by (simp add: float_value_sizeInGB spec_GB_def diff_divide_distrib)
  then have "\<bar>float_value (sizeInGB n) - spec_GB n\<bar>
          = \<bar>(float_value (float64_of_int64 n) - of_int (sint n)) / 1024 ^ 3\<bar>"
    by (simp only:)
  also have "\<dots> = \<bar>float_value (float64_of_int64 n) - of_int (sint n)\<bar> / 1024 ^ 3"
    by (simp add: abs_divide)
  also have "\<dots> \<le> 2 ^ 10 / 1024 ^ 3"
    using float64_of_int64_error [of n] by (simp add: divide_right_mono)
  finally show ?thesis by simp
qed

lemma spec_GB_bound: "\<bar>spec_GB n\<bar> \<le> 2 ^ 33"
proof -
  have "\<bar>spec_GB n\<bar> = \<bar>of_int (sint n)\<bar> / 1024 ^ 3" by (simp add: spec_GB_def)
  also have "\<dots> \<le> 2 ^ 63 / 1024 ^ 3" using abs_sint64 [of n] by (simp add: divide_right_mono)
  finally show ?thesis by simp
qed

lemma pricePerGB_error: "\<bar>float_value pricePerGB - 23 / 1000\<bar> \<le> 1 / 2 ^ 59"
  by (simp add: pricePerGB_value float_value_def power_int_minus)

lemma pricePerGB_bound: "\<bar>float_value pricePerGB\<bar> \<le> 1 / 32"
  by (simp add: pricePerGB_value float_value_def power_int_minus)

lemma float_value_fmul_error:
  "\<bar>float_value (fmul x y) - float_value x * float_value y\<bar>
     \<le> \<bar>float_value x * float_value y\<bar> / 2 ^ 53"
proof -
  have "float_value (fst x * fst y, snd x + snd y) = float_value x * float_value y"
    by (simp add: float_value_def power_int_add)
  with round_to_53_error [of "(fst x * fst y, snd x + snd y)"]
  show ?thesis by (simp add: fmul_def)
qed

lemma estimatedSavings_error:
  "\<bar>float_value (estimatedSavings n) - spec_savings n\<bar> \<le> 1 / 2 ^ 23"
proof -
  define G c where "G = float_value (sizeInGB n)" and "c = float_value pricePerGB"
  define P where "P = float_value (estimatedSavings n)"
  have g: "\<bar>G - spec_GB n\<bar> \<le> 1 / 2 ^ 20" unfolding G_def by (rule sizeInGB_error)
  have "\<bar>G\<bar> = \<bar>(G - spec_GB n) + spec_GB n\<bar>" by simp
  also have "\<dots> \<le> \<bar>G - spec_GB n\<bar> + \<bar>spec_GB n\<bar>" by (rule abs_triangle_ineq)
  also have "\<dots> \<le> 1 / 2 ^ 20 + 2 ^ 33" using g spec_GB_bound [of n] by (intro add_mono)
  also have "\<dots> \<le> 2 ^ 34" by simp
  finally have G: "\<bar>G\<bar> \<le> 2 ^ 34" .
  have c: "\<bar>c - 23 / 1000\<bar> \<le> 1 / 2 ^ 59" "\<bar>c\<bar> \<le> 1 / 32"
    unfolding c_def by (rule pricePerGB_error, rule pricePerGB_bound)
  have Gc: "\<bar>G * c\<bar> \<le> 2 ^ 34 * (1 / 32)"
    unfolding abs_mult using G c(2) by (intro mult_mono) simp_all
  have "\<bar>P - G * c\<bar> \<le> \<bar>G * c\<bar> / 2 ^ 53"
    unfolding P_def G_def c_def estimatedSavings_def by (rule float_value_fmul_error)
  also have "\<dots> \<le> 2 ^ 34 * (1 / 32) / 2 ^ 53" using Gc by (simp add: divide_right_mono)
  finally have p: "\<bar>P - G * c\<bar> \<le> 1 / 2 ^ 24" by simp
  have "G * c - spec_savings n = G * (c - 23 / 1000) + (G - spec_GB n) * (23 / 1000)"
    by (simp add: spec_savings_def field_simps)
  then have "\<bar>G * c - spec_savings n\<bar>
               = \<bar>G * (c - 23 / 1000) + (G - spec_GB n) * (23 / 1000)\<bar>"
    by (simp only:)
  also have "\<dots> \<le> \<bar>G * (c - 23 / 1000)\<bar> + \<bar>(G - spec_GB n) * (23 / 1000)\<bar>"
    by (rule abs_triangle_ineq)
  also have "\<dots> = \<bar>G\<bar> * \<bar>c - 23 / 1000\<bar> + \<bar>G - spec_GB n\<bar> * (23 / 1000)"
    by (simp only: abs_mult abs_divide abs_numeral)
  also have "\<dots> \<le> 2 ^ 34 * (1 / 2 ^ 59) + 1 / 2 ^ 20 * (23 / 1000)"
  proof (rule add_mono)
    show "\<bar>G\<bar> * \<bar>c - 23 / 1000\<bar> \<le> 2 ^ 34 * (1 / 2 ^ 59)"
      using G c(1) by (intro mult_mono) simp_all
    show "\<bar>G - spec_GB n\<bar> * (23 / 1000) \<le> 1 / 2 ^ 20 * (23 / 1000)"
      using g by (intro mult_right_mono) simp_all
  qed
  finally have q:
    "\<bar>G * c - spec_savings n\<bar> \<le> 2 ^ 34 * (1 / 2 ^ 59) + 1 / 2 ^ 20 * (23 / 1000)" .
  have "\<bar>P - spec_savings n\<bar> \<le> \<bar>P - G * c\<bar> + \<bar>G * c - spec_savings n\<bar>"
    by simp
  also have "\<dots> \<le> 1 / 2 ^ 24 + (2 ^ 34 * (1 / 2 ^ 59) + 1 / 2 ^ 20 * (23 / 1000))"
    using p q by simp
  also have "\<dots> \<le> 1 / 2 ^ 23" by simp
  finally show ?thesis unfolding P_def .
qed

lemma format_fixed_error:
  "\<bar>of_int (format_fixed d x) - float_value x * 10 ^ d\<bar> \<le> (1 / 2 :: rat)"
proof (cases "0 \<le> snd x")
  case True
  then have "(2::rat) powi (snd x) = 2 ^ nat (snd x)" by (simp add: power_int_def)
  with True show ?thesis by (simp add: format_fixed_def float_value_def)
next
  case False
  define K where "K = nat (- snd x)"
  define D where "D = round_half_even (fst x * 10 ^ d) (2 ^ K)"
  have e: "(2::rat) powi (snd x) = 1 / 2 ^ K"
    using False by (simp add: power_int_def K_def field_simps)
  have "2 * \<bar>D * 2 ^ K - fst x * 10 ^ d\<bar> \<le> 2 ^ K"
    unfolding D_def by (rule round_half_even_error) simp
  then have "(of_int (2 * \<bar>D * 2 ^ K - fst x * 10 ^ d\<bar>) :: rat) \<le> of_int (2 ^ K)"
    by (simp only: of_int_le_iff)
  then have h: "\<bar>of_int D * 2 ^ K - of_int (fst x) * 10 ^ d\<bar> \<le> (2 ^ K / 2 :: rat)"
    by simp
  have "of_int D - float_value x * 10 ^ d
                   = (of_int D * 2 ^ K - of_int (fst x) * 10 ^ d) / (2 ^ K :: rat)"
    by (simp add: float_value_def e field_simps)
  then have "\<bar>of_int D - float_value x * 10 ^ d\<bar>
               = \<bar>(of_int D * 2 ^ K - of_int (fst x) * 10 ^ d) / (2 ^ K :: rat)\<bar>"
    by (simp only:)
  also have "\<dots> = \<bar>of_int D * 2 ^ K - of_int (fst x) * 10 ^ d\<bar> / (2 ^ K :: rat)"
    by (simp add: abs_divide)
  also have "\<dots> \<le> (2 ^ K / 2) / (2 ^ K :: rat)"
    using h by (intro divide_right_mono) simp_all
  also have "\<dots> = 1 / 2" by simp
  finally have "\<bar>of_int D - float_value x * 10 ^ d\<bar> \<le> (1 / 2 :: rat)" .
  with False show ?thesis by (simp add: format_fixed_def D_def K_def)
qed

lemma round_to_53_shift:
  assumes "0 < k" and "2 ^ (52 + k) \<le> \<bar>m\<bar>" and "\<bar>m\<bar> < 2 ^ (53 + k)"
  shows "round_to_53 (m, e) = (round_half_even m (2 ^ k), e + int k)"
proof -
  have "bitlen \<bar>m\<bar> \<le> int (53 + k)"
    using assms(3) by (simp add: bitlen_le_iff_power nat_add_distrib)
  moreover have "int (53 + k) \<le> bitlen \<bar>m\<bar>"
    using assms(2) by (simp add: bitlen_ge_iff_power nat_add_distrib add.commute)
  ultimately have "bitlen \<bar>m\<bar> = 53 + int k" by simp
  with assms(1) show ?thesis by (simp add: round_to_53_def)
qed

lemma spec_savings_4dp_error:
  "\<bar>of_int (spec_savings_4dp n) - spec_savings n * 10 ^ 4\<bar> \<le> (1 / 2 :: rat)"
proof -
  define D where "D = spec_savings_4dp n"
  define a where "a = sint n * 23 * 10 ^ 4"
  define b :: int where "b = 1024 ^ 3 * 1000"
  have "2 * \<bar>D * b - a\<bar> \<le> b"
    unfolding D_def spec_savings_4dp_def a_def b_def by (rule round_half_even_error) simp
  then have "(of_int (2 * \<bar>D * b - a\<bar>) :: rat) \<le> of_int b" by (simp only: of_int_le_iff)
  then have h: "\<bar>of_int D * of_int b - of_int a\<bar> \<le> (of_int b / 2 :: rat)" by simp
  have bpos: "(0 :: rat) < of_int b" by (simp add: b_def)
  have "spec_savings n * 10 ^ 4 = (of_int a :: rat) / of_int b"
    by (simp add: spec_savings_def spec_GB_def a_def b_def)
  then have "of_int D - spec_savings n * 10 ^ 4 = (of_int D * of_int b - of_int a) / (of_int b :: rat)"
    using bpos by (simp add: field_simps)
  then have "\<bar>of_int D - spec_savings n * 10 ^ 4\<bar>
               = \<bar>(of_int D * of_int b - of_int a) / (of_int b :: rat)\<bar>"
    by (simp only:)
  also have "\<dots> = \<bar>of_int D * of_int b - of_int a\<bar> / (of_int b :: rat)"
    using bpos by (simp only: abs_divide abs_of_pos)
  also have "\<dots> \<le> (of_int b / 2) / (of_int b :: rat)"
    using h bpos by (intro divide_right_mono) simp_all
  also have "\<dots> = 1 / 2" using bpos by simp
  finally show ?thesis unfolding D_def .
qed

lemma displayed_savings_error:
  "\<bar>of_int (format_fixed 4 (estimatedSavings n)) / 10 ^ 4 - spec_savings n\<bar> < (1 / 10 ^ 4 :: rat)"
proof -
  define D :: rat where "D = of_int (format_fixed 4 (estimatedSavings n))"
  define P where "P = float_value (estimatedSavings n)"
  have d: "\<bar>D - P * 10 ^ 4\<bar> \<le> 1 / 2" unfolding D_def P_def by (rule format_fixed_error)
  have p: "\<bar>P - spec_savings n\<bar> \<le> 1 / 2 ^ 23" unfolding P_def by (rule estimatedSavings_error)
  have "D / 10 ^ 4 - spec_savings n = (D - P * 10 ^ 4) / 10 ^ 4 + (P - spec_savings n)"
    by (simp add: field_simps)
  then have "\<bar>D / 10 ^ 4 - spec_savings n\<bar> = \<bar>(D - P * 10 ^ 4) / 10 ^ 4 + (P - spec_savings n)\<bar>"
    by (simp only:)
  also have "\<dots> \<le> \<bar>(D - P * 10 ^ 4) / 10 ^ 4\<bar> + \<bar>P - spec_savings n\<bar>"
    by (rule abs_triangle_ineq)
  also have "\<bar>(D - P * 10 ^ 4) / 10 ^ 4\<bar> = \<bar>D - P * 10 ^ 4\<bar> / 10 ^ 4"
    by (simp add: abs_divide)
  also have "\<bar>D - P * 10 ^ 4\<bar> / 10 ^ 4 + \<bar>P - spec_savings n\<bar> \<le> (1 / 2) / 10 ^ 4 + 1 / 2 ^ 23"
    using d p by (intro add_mono divide_right_mono) simp_all
  also have "\<dots> < 1 / 10 ^ 4" by simp
  finally show ?thesis unfolding D_def .
qed

lemma displayed_savings_near_rounded:
  "\<bar>format_fixed 4 (estimatedSavings n) - spec_savings_4dp n\<bar> \<le> 1"
proof -
  define D where "D = format_fixed 4 (estimatedSavings n)"
  define R where "R = spec_savings_4dp n"
  have a: "\<bar>of_int D / 10 ^ 4 - spec_savings n\<bar> < (1 / 10 ^ 4 :: rat)"
    unfolding D_def by (rule displayed_savings_error)
  have "of_int D - spec_savings n * 10 ^ 4 = (of_int D / 10 ^ 4 - spec_savings n) * 10 ^ 4"
    by (simp add: field_simps)
  then have "\<bar>of_int D - spec_savings n * 10 ^ 4\<bar>
               = \<bar>(of_int D / 10 ^ 4 - spec_savings n) * 10 ^ 4\<bar>"
    by (simp only:)
  also have "\<dots> = \<bar>of_int D / 10 ^ 4 - spec_savings n\<bar> * 10 ^ 4"
    by (simp only: abs_mult power_abs abs_numeral)
  also have "\<dots> < 1 / 10 ^ 4 * 10 ^ 4"
    using a by (intro mult_strict_right_mono) simp_all
  finally have d: "\<bar>of_int D - spec_savings n * 10 ^ 4\<bar> < 1" by simp
  have r: "\<bar>of_int R - spec_savings n * 10 ^ 4\<bar> \<le> (1 / 2 :: rat)"
    unfolding R_def by (rule spec_savings_4dp_error)
  have "(of_int D - of_int R :: rat) = (of_int D - spec_savings n * 10 ^ 4) - (of_int R - spec_savings n * 10 ^ 4)"
    by simp
  then have "\<bar>of_int D - of_int R :: rat\<bar>
               = \<bar>(of_int D - spec_savings n * 10 ^ 4) - (of_int R - spec_savings n * 10 ^ 4)\<bar>"
    by (simp only:)
  also have "\<dots> \<le> \<bar>of_int D - spec_savings n * 10 ^ 4\<bar> + \<bar>of_int R - spec_savings n * 10 ^ 4\<bar>"
    by (rule abs_triangle_ineq4)
  also have "\<dots> < 1 + 1 / 2" using d r by (intro add_less_le_mono)
  finally have "\<bar>of_int (D - R) :: rat\<bar> < 2" by simp
  then have "(of_int \<bar>D - R\<bar> :: rat) < of_int 2" by simp
  then have "\<bar>D - R\<bar> < 2" by (simp only: of_int_less_iff)
  then show ?thesis unfolding D_def R_def by simp
qed

lemma savings_2_28: "estimatedSavings 268435456 = (6629298651489370, - 60)"
proof -
  have a: "float64_of_int64 268435456 = (268435456, 0)"
    using float64_of_int64_exact [of 268435456] by simp
  have "round_to_53 (268435456 * 6629298651489370, - 88)
          = (round_half_even (268435456 * 6629298651489370) (2 ^ 28), - 88 + int 28)"
    by (rule round_to_53_shift) simp_all
  then show ?thesis
    by (simp add: estimatedSavings_def sizeInGB_def fdiv_1024_def fmul_def a pricePerGB_value
        round_half_even_def Let_def)
qed

lemma savings_2_27: "estimatedSavings 134217728 = (6629298651489370, - 61)"
proof -
  have a: "float64_of_int64 134217728 = (134217728, 0)"
    using float64_of_int64_exact [of 134217728] by simp
  have "round_to_53 (134217728 * 6629298651489370, - 88)
          = (round_half_even (134217728 * 6629298651489370) (2 ^ 27), - 88 + int 27)"
    by (rule round_to_53_shift) simp_all
  then show ?thesis
    by (simp add: estimatedSavings_def sizeInGB_def fdiv_1024_def fmul_def a pricePerGB_value
        round_half_even_def Let_def)
qed

lemma sizeInGB_exact:
  assumes "\<bar>sint n\<bar> < 2 ^ 53"
  shows "float_value (sizeInGB n) = spec_GB n"
proof -
  have "float_value (float64_of_int64 n) = of_int (sint n)"
    by (simp add: float64_of_int64_exact [OF assms] float_value_def)
  then show ?thesis by (simp add: float_value_sizeInGB spec_GB_def)
qed

lemma savings_2_30: "estimatedSavings 1073741824 = (6629298651489370, - 58)"
proof -
  have a: "float64_of_int64 1073741824 = (1073741824, 0)"
    using float64_of_int64_exact [of 1073741824] by simp
  have "round_to_53 (1073741824 * 6629298651489370, - 88)
          = (round_half_even (1073741824 * 6629298651489370) (2 ^ 30), - 88 + int 30)"
    by (rule round_to_53_shift) simp_all
  then show ?thesis
    by (simp add: estimatedSavings_def sizeInGB_def fdiv_1024_def fmul_def a pricePerGB_value
        round_half_even_def Let_def)
qed

lemma runScan_report_summary:
  assumes "snd (runScan env be bucket days isDryRun True) = Returned"
  shows "ReportReclaimable (sizeInGB (totalSize (fst (runScan env be bucket days isDryRun True))))
           \<in> set (events (fst (runScan env be bucket days isDryRun True))) \<and>
         ReportSavings (estimatedSavings (totalSize (fst (runScan env be bucket days isDryRun True))))
           \<in> set (events (fst (runScan env be bucket days isDryRun True)))"
  using assms
  by (auto simp: runScan_def Let_def summary_def emit_def split: option.splits prod.splits
      dest: pagination_loop_ending)

text \<open>
  Claim C8, as the code has it. For every byte total \<open>n\<close>: the size in GB of the summary
  is \<open>float64(n) / 1024 / 1024 / 1024\<close>, which is \<open>n / 1024^3\<close> exactly when \<open>n\<close> is below
  \<open>2^53\<close> in magnitude and within \<open>2^-20\<close> of it always; the savings are the \<open>float64\<close>
  product of that size and the \<open>float64\<close> nearest to 0.023, which is within \<open>2^-59\<close> of
  0.023, and the product is within \<open>2^-23\<close> of the exact \<open>n / 1024^3 * 0.023\<close>. What the
  report displays is that \<open>float64\<close> rounded to four decimals: it is less than \<open>10^-4\<close> away
  from the exact \<open>n / 1024^3 * 0.023\<close>, and at most one unit of the fourth decimal place
  away from the exact value rounded to four decimals. A report-only run that returns
  prints these two figures, computed from its final byte total.
\<close>

theorem displayed_savings_within_one_unit:
  "\<bar>float_value (sizeInGB n) - spec_GB n\<bar> \<le> 1 / 2 ^ 20 \<and>
   (\<bar>sint n\<bar> < 2 ^ 53 \<longrightarrow> float_value (sizeInGB n) = spec_GB n) \<and>
   \<bar>float_value pricePerGB - 23 / 1000\<bar> \<le> 1 / 2 ^ 59 \<and>
   \<bar>float_value (estimatedSavings n) - spec_savings n\<bar> \<le> 1 / 2 ^ 23 \<and>
   \<bar>of_int (format_fixed 4 (estimatedSavings n)) - float_value (estimatedSavings n) * 10 ^ 4\<bar>
     \<le> 1 / 2 \<and>
   \<bar>of_int (format_fixed 4 (estimatedSavings n)) / 10 ^ 4 - spec_savings n\<bar> < 1 / 10 ^ 4 \<and>
   \<bar>format_fixed 4 (estimatedSavings n) - spec_savings_4dp n\<bar> \<le> 1 \<and>
   (snd (runScan env be bucket days isDryRun True) = Returned \<longrightarrow>
      ReportReclaimable (sizeInGB (totalSize (fst (runScan env be bucket days isDryRun True))))
        \<in> set (events (fst (runScan env be bucket days isDryRun True))) \<and>
      ReportSavings (estimatedSavings (totalSize (fst (runScan env be bucket days isDryRun True))))
        \<in> set (events (fst (runScan env be bucket days isDryRun True))))"
proof (intro conjI impI)
  show "\<bar>float_value (sizeInGB n) - spec_GB n\<bar> \<le> 1 / 2 ^ 20"
    by (rule sizeInGB_error)
  show "float_value (sizeInGB n) = spec_GB n" if "\<bar>sint n\<bar> < 2 ^ 53"
    using that by (rule sizeInGB_exact)
  show "\<bar>float_value pricePerGB - 23 / 1000\<bar> \<le> 1 / 2 ^ 59"
    by (rule pricePerGB_error)
  show "\<bar>float_value (estimatedSavings n) - spec_savings n\<bar> \<le> 1 / 2 ^ 23"
    by (rule estimatedSavings_error)
  show "\<bar>of_int (format_fixed 4 (estimatedSavings n)) - float_value (estimatedSavings n) * 10 ^ 4\<bar>
     \<le> 1 / 2"
    by (rule format_fixed_error)
  show "\<bar>of_int (format_fixed 4 (estimatedSavings n)) / 10 ^ 4 - spec_savings n\<bar> < 1 / 10 ^ 4"
    by (rule displayed_savings_error)
  show "\<bar>format_fixed 4 (estimatedSavings n) - spec_savings_4dp n\<bar> \<le> 1"
    by (rule displayed_savings_near_rounded)
next
  assume r: "snd (runScan env be bucket days isDryRun True) = Returned"
  from runScan_report_summary [OF r]
  show "ReportReclaimable (sizeInGB (totalSize (fst (runScan env be bucket days isDryRun True))))
        \<in> set (events (fst (runScan env be bucket days isDryRun True)))"
    and "ReportSavings (estimatedSavings (totalSize (fst (runScan env be bucket days isDryRun True))))
        \<in> set (events (fst (runScan env be bucket days isDryRun True)))"
    by simp_all
qed

theorem displayed_savings_within_one_unit_witness:
  "\<bar>sint (1073741824 :: int64)\<bar> < 2 ^ 53 \<and>
   float_value (sizeInGB 1073741824) = 1 \<and>
   spec_GB 1073741824 = 1 \<and>
   spec_savings 1073741824 = 23 / 1000 \<and>
   format_fixed 4 (estimatedSavings 1073741824) = 230 \<and>
   spec_savings_4dp 1073741824 = 230 \<and>
   snd (runScan example_env 0 ''logs'' 30 False True) = Returned \<and>
   ReportReclaimable (sizeInGB 1073741824)
     \<in> set (events (fst (runScan example_env 0 ''logs'' 30 False True))) \<and>
   ReportSavings (estimatedSavings 1073741824)
     \<in> set (events (fst (runScan example_env 0 ''logs'' 30 False True)))"
proof -
  have small: "\<bar>sint (1073741824 :: int64)\<bar> < 2 ^ 53" by simp
  have gb: "spec_GB 1073741824 = 1" by (simp add: spec_GB_def)
  have fmt: "format_fixed 4 (estimatedSavings 1073741824) = 230"
    by (simp add: savings_2_30 format_fixed_def round_half_even_def Let_def)
  have r4: "spec_savings_4dp 1073741824 = 230"
    by (simp add: spec_savings_4dp_def round_half_even_def Let_def)
  from displayed_savings_within_one_unit [of 1073741824 example_env 0 "''logs''" 30 False]
  show ?thesis
    using small by (simp add: gb fmt r4 spec_savings_def example_report)
qed

text \<open>
  Claim C8, as the specification states it, fails for a byte total of \<open>2^28\<close>: the size is
  0.25 GB, and 0.25 times 0.023 is 0.00575, which is 0.0058 to four decimal places; the
  \<open>float64\<close> product is a little below 0.00575 and is displayed as 0.0057. Nor is the
  displayed figure the exact one cut off after four decimals: for a byte total of \<open>2^27\<close>
  the exact savings are 0.002875 and the display is 0.0029.
\<close>

theorem displayed_savings_counterexample:
  "format_fixed 4 (estimatedSavings 268435456) = 57 \<and>
   spec_savings 268435456 = 575 / 100000 \<and>
   spec_savings_4dp 268435456 = 58 \<and>
   format_fixed 4 (estimatedSavings 134217728) = 29 \<and>
   spec_savings 134217728 = 2875 / 1000000"
  by (simp add: savings_2_28 savings_2_27 format_fixed_def round_half_even_def Let_def
      spec_savings_def spec_GB_def spec_savings_4dp_def)

subsection \<open>Classification over a whole run\<close>

lemma process_object_stale_count:
  "process_object del bucket cutoff isDryRun isReport st obj = (st', t) \<Longrightarrow>
     staleCount st' = staleCount st + int (length (filter (is_stale cutoff) [obj]))"
  by (auto simp: process_object_def Let_def emit_def is_stale_def
      split: option.splits if_splits prod.splits)

lemma range_contents_stale_count:
  "range_contents del bucket cutoff isDryRun isReport st objs = (st', None) \<Longrightarrow>
     staleCount st' = staleCount st + int (length (filter (is_stale cutoff) objs))"
proof (induction objs arbitrary: st)
  case Nil
  then show ?case by simp
next
  case (Cons obj objs)
  from Cons.prems obtain st1 where
    one: "process_object del bucket cutoff isDryRun isReport st obj = (st1, None)" and
    more: "range_contents del bucket cutoff isDryRun isReport st1 objs = (st', None)"
    by (auto split: prod.splits option.splits)
  from process_object_stale_count [OF one] Cons.IH [OF more] show ?case by simp
qed

lemma pagination_loop_stale_count:
  "pagination_loop del bucket cutoff isDryRun isReport st pages = (st', t) \<Longrightarrow>
   t \<noteq> Some NilPanic \<Longrightarrow>
     staleCount st' = staleCount st + int (length (filter (is_stale cutoff) (listed pages)))"
proof (induction pages arbitrary: st)
  case Nil
  then show ?case by simp
next
  case (Cons p pages)
  show ?case
  proof (cases p)
    case (NextPageError e)
    with Cons.prems show ?thesis by (auto simp: emit_def)
  next
    case (NextPageOk contents)
    with Cons.prems obtain st1 where
      one: "range_contents del bucket cutoff isDryRun isReport st contents = (st1, None)" and
      more: "pagination_loop del bucket cutoff isDryRun isReport st1 pages = (st', t)"
      by (auto split: prod.splits option.splits dest: range_contents_ending)
    from range_contents_stale_count [OF one] Cons.IH [OF more Cons.prems(2)] NextPageOk
    show ?thesis by simp
  qed
qed

lemma runScan_stale_count:
  assumes "LoadDefaultConfig env = None"
    and "snd (runScan env be bucket days isDryRun isReport) \<noteq> NilPanic"
  shows "staleCount (fst (runScan env be bucket days isDryRun isReport))
     = int (length (filter (is_stale (cutoff_of env days)) (listed (Pages env))))"
proof (cases rule: runScan_cases [of env be bucket days isDryRun isReport])
  case (config e)
  with assms(1) show ?thesis by simp
next
  case (stopped st t)
  with assms have "Some t \<noteq> Some NilPanic" by simp
  from pagination_loop_stale_count [OF stopped(2) this] stopped(3)
  show ?thesis by (simp add: emit_def initial_state_def)
next
  case (returned st)
  from pagination_loop_stale_count [OF returned(2)] returned(3)
  show ?thesis by (simp add: emit_def initial_state_def summary_def Let_def)
qed

lemma process_object_dry_targets:
  "process_object del bucket cutoff True False st obj = (st', None) \<Longrightarrow>
     map line_target (filter is_dry_run_line (events st'))
       = map line_target (filter is_dry_run_line (events st))
         @ map (\<lambda>obj. (Key obj, LastModified obj)) (filter (is_stale cutoff) [obj])"
  by (auto simp: process_object_def Let_def emit_def is_stale_def
      split: option.splits if_splits prod.splits)

lemma range_contents_dry_targets:
  "range_contents del bucket cutoff True False st objs = (st', None) \<Longrightarrow>
     map line_target (filter is_dry_run_line (events st'))
       = map line_target (filter is_dry_run_line (events st))
         @ map (\<lambda>obj. (Key obj, LastModified obj)) (filter (is_stale cutoff) objs)"
proof (induction objs arbitrary: st)
  case Nil
  then show ?case by simp
next
  case (Cons obj objs)
  from Cons.prems obtain st1 where
    one: "process_object del bucket cutoff True False st obj = (st1, None)" and
    more: "range_contents del bucket cutoff True False st1 objs = (st', None)"
    by (auto split: prod.splits option.splits)
  from process_object_dry_targets [OF one] Cons.IH [OF more] show ?case by simp
qed

lemma pagination_loop_dry_targets:
  "pagination_loop del bucket cutoff True False st pages = (st', t) \<Longrightarrow>
   t \<noteq> Some NilPanic \<Longrightarrow>
     map line_target (filter is_dry_run_line (events st'))
       = map line_target (filter is_dry_run_line (events st))
         @ map (\<lambda>obj. (Key obj, LastModified obj)) (filter (is_stale cutoff) (listed pages))"
proof (induction pages arbitrary: st)
  case Nil
  then show ?case by simp
next
  case (Cons p pages)
  show ?case
  proof (cases p)
    case (NextPageError e)
    with Cons.prems show ?thesis by (auto simp: emit_def)
  next
    case (NextPageOk contents)
    with Cons.prems obtain st1 where
      one: "range_contents del bucket cutoff True False st contents = (st1, None)" and
      more: "pagination_loop del bucket cutoff True False st1 pages = (st', t)"
      by (auto split: prod.splits option.splits dest: range_contents_ending)
    from range_contents_dry_targets [OF one] Cons.IH [OF more Cons.prems(2)] NextPageOk
    show ?thesis by simp
  qed
qed

lemma runScan_dry_targets:
  assumes "LoadDefaultConfig env = None"
    and "snd (runScan env be bucket days True False) \<noteq> NilPanic"
  shows "map line_target (filter is_dry_run_line
           (events (fst (runScan env be bucket days True False))))
     = map (\<lambda>obj. (Key obj, LastModified obj))
         (filter (is_stale (cutoff_of env days)) (listed (Pages env)))"
proof (cases rule: runScan_cases [of env be bucket days True False])
  case (config e)
  with assms(1) show ?thesis by simp
next
  case (stopped st t)
  with assms have "Some t \<noteq> Some NilPanic" by simp
  from pagination_loop_dry_targets [OF stopped(2) this] stopped(3)
  show ?thesis by (simp add: emit_def initial_state_def)
next
  case (returned st)
  from pagination_loop_dry_targets [OF returned(2)] returned(3)
  show ?thesis by (simp add: emit_def initial_state_def summary_def Let_def)
qed

lemma process_object_keeps_events:
  "process_object del bucket cutoff isDryRun isReport st obj = (st', t) \<Longrightarrow>
     set (events st) \<subseteq> set (events st')"
  by (auto simp: process_object_def Let_def emit_def split: option.splits if_splits prod.splits)

lemma range_contents_keeps_events:
  "range_contents del bucket cutoff isDryRun isReport st objs = (st', t) \<Longrightarrow>
     set (events st) \<subseteq> set (events st')"
proof (induction objs arbitrary: st)
  case Nil
  then show ?case by simp
next
  case (Cons obj objs)
  obtain st1 t1 where one: "process_object del bucket cutoff isDryRun isReport st obj = (st1, t1)"
    by (cases "process_object del bucket cutoff isDryRun isReport st obj")
  note a = process_object_keeps_events [OF one]
  show ?case
  proof (cases t1)
    case None
    with Cons.prems one
    have "range_contents del bucket cutoff isDryRun isReport st1 objs = (st', t)" by simp
    from Cons.IH [OF this] a show ?thesis by blast
  next
    case (Some u)
    with Cons.prems one have "st' = st1" by simp
    with a show ?thesis by simp
  qed
qed

lemma pagination_loop_keeps_events:
  "pagination_loop del bucket cutoff isDryRun isReport st pages = (st', t) \<Longrightarrow>
     set (events st) \<subseteq> set (events st')"
proof (induction pages arbitrary: st)
  case Nil
  then show ?case by simp
next
  case (Cons p pages)
  show ?case
  proof (cases p)
    case (NextPageError e)
    with Cons.prems show ?thesis by (auto simp: emit_def)
  next
    case (NextPageOk contents)
    obtain st1 t1 where
      one: "range_contents del bucket cutoff isDryRun isReport st contents = (st1, t1)"
      by (cases "range_contents del bucket cutoff isDryRun isReport st contents")
    note a = range_contents_keeps_events [OF one]
    show ?thesis
    proof (cases t1)
      case None
      with Cons.prems one NextPageOk
      have "pagination_loop del bucket cutoff isDryRun isReport st1 pages = (st', t)" by simp
      from Cons.IH [OF this] a show ?thesis by blast
    next
      case (Some u)
      with Cons.prems one NextPageOk have "st' = st1" by simp
      with a show ?thesis by simp
    qed
  qed
qed

lemma runScan_banner:
  assumes "LoadDefaultConfig env = None"
  shows "ScanBanner bucket (AddDate env (Now env) 0 0 (- days)) days
           \<in> set (events (fst (runScan env be bucket days isDryRun isReport)))"
proof (cases rule: runScan_cases [of env be bucket days isDryRun isReport])
  case (config e)
  with assms show ?thesis by simp
next
  case (stopped st t)
  from pagination_loop_keeps_events [OF stopped(2)] stopped(3)
  show ?thesis by (auto simp: emit_def cutoff_of_def)
next
  case (returned st)
  from pagination_loop_keeps_events [OF returned(2)] returned(3)
  show ?thesis by (auto simp: emit_def cutoff_of_def summary_def Let_def)
qed

lemma example_live_run:
  "live_run example_env 0 ''logs'' 30 =
     (\<lparr>backend = 1, staleCount = 1, totalSize = 1073741824, deletedCount = 1,
       events = [ScanBanner ''logs'' 70 30,
                 DeleteObjectCall ''logs'' (Some ''A'') None, DeletedLine ''A'',
                 Separator, CleanupSummary 1]\<rparr>,
      Returned)"
  by (simp add: run_defs example_env_def obj_A_def obj_B_def)

text \<open>
  Claim C1. The cutoff of a run is \<open>time.Now().AddDate(0, 0, -days)\<close> (line 71), the value
  its banner shows. An object with a last-modified time \<open>lm\<close> is stale exactly when
  \<open>lm < cutoff\<close>: the loop body raises the stale count by one if and only if that holds, and
  when \<open>cutoff \<le> lm\<close> it leaves the whole state as it was (counters, backend, trace). Over
  a whole run, taking every fresh object out of the listing changes neither the final
  state, nor the trace, nor the way the run ends. In a run whose configuration loads and
  that meets no nil pointer, the final stale count is the number of listed objects that
  are stale at that cutoff and the byte total is the 64-bit sum of their sizes; in dry-run
  mode the dry-run lines are, in order, exactly those of the stale listed objects, and in
  a live run the delete calls are, in order, exactly those for the stale listed objects.
\<close>

theorem stale_records_are_those_before_cutoff:
  "LastModified obj = Some lm \<Longrightarrow>
     is_stale cutoff obj = (lm < cutoff) \<and>
     ((staleCount (fst (process_object del bucket cutoff dry rep st obj)) = staleCount st + 1)
        = (lm < cutoff)) \<and>
     (cutoff \<le> lm \<longrightarrow> process_object del bucket cutoff dry rep st obj = (st, None)) \<and>
     runScan (env\<lparr>Pages := map (drop_fresh (AddDate env (Now env) 0 0 (- days))) (Pages env)\<rparr>)
         be bucket days dry rep
       = runScan env be bucket days dry rep \<and>
     (LoadDefaultConfig env = None \<longrightarrow>
        ScanBanner bucket (AddDate env (Now env) 0 0 (- days)) days
          \<in> set (events (fst (runScan env be bucket days dry rep)))) \<and>
     (LoadDefaultConfig env = None \<and> snd (runScan env be bucket days dry rep) \<noteq> NilPanic \<longrightarrow>
        staleCount (fst (runScan env be bucket days dry rep))
          = int (length (filter (is_stale (AddDate env (Now env) 0 0 (- days)))
                   (listed (Pages env)))) \<and>
        totalSize (fst (runScan env be bucket days dry rep))
          = sum_list (map known_size
              (filter (is_stale (AddDate env (Now env) 0 0 (- days))) (listed (Pages env))))) \<and>
     (LoadDefaultConfig env = None \<and> snd (runScan env be bucket days True False) \<noteq> NilPanic \<longrightarrow>
        map line_target (filter is_dry_run_line
            (events (fst (runScan env be bucket days True False))))
          = map (\<lambda>obj. (Key obj, LastModified obj))
              (filter (is_stale (AddDate env (Now env) 0 0 (- days))) (listed (Pages env)))) \<and>
     (LoadDefaultConfig env = None \<and> snd (live_run env be bucket days) \<noteq> NilPanic \<longrightarrow>
        map call_target (filter is_delete_call (events (fst (live_run env be bucket days))))
          = map (\<lambda>obj. (bucket, Key obj))
              (filter (is_stale (AddDate env (Now env) 0 0 (- days))) (listed (Pages env))))"
proof -
  assume lm: "LastModified obj = Some lm"
  have c: "AddDate env (Now env) 0 0 (- days) = cutoff_of env days"
    by (simp add: cutoff_of_def)
  have "is_stale cutoff obj = (lm < cutoff)"
    using lm by (simp add: is_stale_def Before_def)
  moreover have "(staleCount (fst (process_object del bucket cutoff dry rep st obj))
                    = staleCount st + 1) = (lm < cutoff)"
    using lm by (rule stale_step_count)
  moreover have "cutoff \<le> lm \<longrightarrow> process_object del bucket cutoff dry rep st obj = (st, None)"
    using lm by (simp add: process_object_fresh is_fresh_def Before_def)
  moreover have "runScan (env\<lparr>Pages := map (drop_fresh (cutoff_of env days)) (Pages env)\<rparr>)
                   be bucket days dry rep
                 = runScan env be bucket days dry rep"
    by (simp add: runScan_def cutoff_of_def pagination_loop_drop_fresh Let_def
        split: option.splits)
  moreover have "LoadDefaultConfig env = None \<longrightarrow>
        ScanBanner bucket (AddDate env (Now env) 0 0 (- days)) days
          \<in> set (events (fst (runScan env be bucket days dry rep)))"
    by (simp add: runScan_banner)
  moreover have "LoadDefaultConfig env = None \<and>
      snd (runScan env be bucket days dry rep) \<noteq> NilPanic \<longrightarrow>
        staleCount (fst (runScan env be bucket days dry rep))
          = int (length (filter (is_stale (cutoff_of env days)) (listed (Pages env)))) \<and>
        totalSize (fst (runScan env be bucket days dry rep))
          = sum_list (map known_size
              (filter (is_stale (cutoff_of env days)) (listed (Pages env))))"
    by (simp add: runScan_stale_count runScan_total)
  moreover have "LoadDefaultConfig env = None \<and>
      snd (runScan env be bucket days True False) \<noteq> NilPanic \<longrightarrow>
        map line_target (filter is_dry_run_line
            (events (fst (runScan env be bucket days True False))))
          = map (\<lambda>obj. (Key obj, LastModified obj))
              (filter (is_stale (cutoff_of env days)) (listed (Pages env)))"
    by (simp add: runScan_dry_targets)
  moreover have "LoadDefaultConfig env = None \<and> snd (live_run env be bucket days) \<noteq> NilPanic \<longrightarrow>
        map call_target (filter is_delete_call (events (fst (live_run env be bucket days))))
          = map (\<lambda>obj. (bucket, Key obj))
              (filter (is_stale (cutoff_of env days)) (listed (Pages env)))"
    by (simp add: live_run_calls)
  ultimately show ?thesis unfolding c by blast
qed

theorem stale_records_are_those_before_cutoff_witness:
  "LastModified obj_A = Some 60 \<and> LastModified obj_B = Some 95 \<and>
   AddDate example_env (Now example_env) 0 0 (- 30) = 70 \<and>
   is_stale 70 obj_A \<and> \<not> is_stale 70 obj_B \<and>
   staleCount (fst (process_object (DeleteObject example_env) ''logs'' 70 True False
                      (initial_state 0) obj_A)) = 1 \<and>
   process_object (DeleteObject example_env) ''logs'' 70 True False (initial_state 0) obj_B
     = (initial_state 0, None) \<and>
   runScan (example_env\<lparr>Pages := [NextPageOk [obj_A]]\<rparr>) 0 ''logs'' 30 True False
     = runScan example_env 0 ''logs'' 30 True False \<and>
   ScanBanner ''logs'' 70 30 \<in> set (events (fst (runScan example_env 0 ''logs'' 30 True False))) \<and>
   filter (is_stale 70) (listed (Pages example_env)) = [obj_A] \<and>
   staleCount (fst (runScan example_env 0 ''logs'' 30 True False)) = 1 \<and>
   totalSize (fst (runScan example_env 0 ''logs'' 30 True False)) = 1073741824 \<and>
   map line_target (filter is_dry_run_line
       (events (fst (runScan example_env 0 ''logs'' 30 True False))))
     = [(Some ''A'', Some 60)] \<and>
   map call_target (filter is_delete_call (events (fst (live_run example_env 0 ''logs'' 30))))
     = [(''logs'', Some ''A'')]"
proof -
  have a: "LastModified obj_A = Some 60" by (simp add: obj_A_def)
  have b: "LastModified obj_B = Some 95" by (simp add: obj_B_def)
  have c: "AddDate example_env (Now example_env) 0 0 (- 30) = 70"
    by (simp add: example_env_def)
  have d: "map (drop_fresh 70) (Pages example_env) = [NextPageOk [obj_A]]"
    by (simp add: example_env_def obj_A_def obj_B_def is_fresh_def Before_def)
  have e: "filter (is_stale 70) (listed (Pages example_env)) = [obj_A]"
    by (simp add: example_env_def obj_A_def obj_B_def is_stale_def Before_def)
  have s: "staleCount (initial_state (0::nat)) = 0" by (simp add: initial_state_def)
  have cfg: "LoadDefaultConfig example_env = None" by (simp add: example_env_def)
  have k: "known_size obj_A = 1073741824" by (simp add: known_size_def obj_A_def)
  have t: "(Key obj_A, LastModified obj_A) = (Some ''A'', Some 60)" by (simp add: obj_A_def)
  note A = stale_records_are_those_before_cutoff [OF a, of 70 "DeleteObject example_env"
      "''logs''" True False "initial_state 0" example_env 30 0]
  note B = stale_records_are_those_before_cutoff [OF b, of 70 "DeleteObject example_env"
      "''logs''" True False "initial_state 0" example_env 30 0]
  from A B show ?thesis
    unfolding c d e by (simp add: a b s cfg k t example_dry_run example_live_run)
qed

end
